theory Spec2Isabelle
  imports Main "HOL-Library.Char_ord" "HOL-Library.List_Lexorder"
begin

section \<open>Constants of \<^verbatim>\<open>semkon/main.py\<close>\<close>

definition MAX_FILES_REQUESTED :: nat where
  "MAX_FILES_REQUESTED = 5"

definition MESSAGE_ENVELOPE_TOKENS :: int where
  "MESSAGE_ENVELOPE_TOKENS = 300"

definition MAX_CONTEXT_LENGTH :: int where
  "MAX_CONTEXT_LENGTH = 100000"

section \<open>Data model\<close>

text \<open>
  Paths are values of a linearly ordered type \<open>'p\<close>: \<^verbatim>\<open>pathlib.Path\<close> objects are
  hashable and totally ordered, and \<^verbatim>\<open>sorted\<close> uses that order. The pydantic classes
  become records and datatypes of the same names.
\<close>

record 'p PropertyLocation =
  rel_path :: 'p
  line_num :: int

datatype correctness_literal = Correct | Incorrect | Unknown

datatype CorrectnessExplanation =
  CorrectnessExplanation (correctness: correctness_literal) (explanation: string)

datatype FilesRequested = FilesRequested (files_requested: "string list")

text \<open>The union \<^verbatim>\<open>FilesRequested | CorrectnessExplanation\<close> of the \<^verbatim>\<open>data\<close> field.\<close>

datatype response_data =
  DataFilesRequested FilesRequested
| DataCorrectnessExplanation CorrectnessExplanation

datatype response_format = FullFilesExcludedResponse | FullFilesIncludedResponse

text \<open>
  Which payloads a response class can hold: \<^verbatim>\<open>FullFilesExcludedResponse.data\<close> is the
  union, \<^verbatim>\<open>FullFilesIncludedResponse.data\<close> is a \<^verbatim>\<open>CorrectnessExplanation\<close> only.
\<close>

fun admits :: "response_format \<Rightarrow> response_data \<Rightarrow> bool" where
  "admits FullFilesExcludedResponse d = True"
| "admits FullFilesIncludedResponse (DataCorrectnessExplanation ce) = True"
| "admits FullFilesIncludedResponse (DataFilesRequested fr) = False"

datatype Failure = Failure (msg: string)

text \<open>The union \<^verbatim>\<open>CorrectnessExplanation | Failure\<close> of a result.\<close>

datatype check_outcome =
  OutcomeCorrectness CorrectnessExplanation
| OutcomeFailure Failure

record 'p ProofCheckResult =
  property_location :: "'p PropertyLocation"
  correctness_explanation :: check_outcome

text \<open>Exceptions that leave \<^verbatim>\<open>check_proof\<close> and so abort the whole run.\<close>

datatype fatal =
  ValueError string
| RuntimeError string
| TimeoutError string
| ValidationError
| ServiceException string

section \<open>Collaborators outside the module\<close>

text \<open>
  The file system, \<^verbatim>\<open>pathlib\<close>, \<^verbatim>\<open>format_file\<close> and the tokenizer are
  parameters: \<open>enc_len s\<close> is \<^verbatim>\<open>len(enc.encode(s))\<close>.
\<close>

record 'p env =
  path_of :: "string \<Rightarrow> 'p"
  str_of :: "'p \<Rightarrow> string"
  read_text :: "'p \<Rightarrow> string"
  format_file :: "string \<Rightarrow> 'p \<Rightarrow> string"
  enc_len :: "string \<Rightarrow> nat"

section \<open>Messages\<close>

datatype role = User | Assistant

text \<open>
  A message keeps the template it instantiates and the template's arguments; \<open>render\<close>
  produces the text that is sent and counted. \<open>inlined_files\<close> lists the files whose
  contents the template inlines through \<^verbatim>\<open>format_file\<close>.
\<close>

datatype 'p msg_content =
  InitialFull "'p list" "'p PropertyLocation"
| InitialIncremental "'p list" string "'p PropertyLocation"
| Subsequent "'p list"
| Reply string

record 'p message =
  role :: role
  content :: "'p msg_content"

fun inlined_files :: "'p msg_content \<Rightarrow> 'p list" where
  "inlined_files (InitialFull ps loc) = ps"
| "inlined_files (InitialIncremental ps deps loc) = [rel_path loc]"
| "inlined_files (Subsequent fs) = fs"
| "inlined_files (Reply s) = []"

definition nl :: string where
  "nl = [CHR 0x0A]"

definition dq :: string where
  "dq = [CHR 0x22]"

fun join :: "string \<Rightarrow> string list \<Rightarrow> string" where
  "join sep [] = []"
| "join sep [x] = x"
| "join sep (x # y # ys) = x @ sep @ join sep (y # ys)"

fun str_nat :: "nat \<Rightarrow> string" where
  "str_nat n =
     (if n < 10 then [char_of (48 + n)]
      else str_nat (n div 10) @ [char_of (48 + n mod 10)])"

definition str_int :: "int \<Rightarrow> string" where
  "str_int i = (if i < 0 then ''-'' @ str_nat (nat (- i)) else str_nat (nat i))"

definition correctness_blurb :: string where
  "correctness_blurb =
     ''By '' @ dq @ ''correct'' @ dq @ '', we mean very high confidence that each step of the proof is valid,'' @ nl @
     ''the proof does in fact prove the proposition, and that the proof is supported by'' @ nl @
     ''what the code does. Mark the proof as '' @ dq @ ''incorrect'' @ dq @ '' if you understand it and the'' @ nl @
     ''code but the proof is wrong. Use '' @ dq @ ''unknown'' @ dq @ '' if e.g. you don'' @ [CHR 0x27] @ ''t 100% know how an'' @ nl @
     ''external library works, or the proof needs more detail. Skeptically and'' @ nl @
     ''rigorously check every claim with references to the code. If the proof'' @ nl @
     ''references an explicitly-stated axiom (or '' @ dq @ ''assumption'' @ dq @ '', etc), you can assume'' @ nl @
     ''that the axiom is correct.''"

definition full_disclosure_text :: "'p env \<Rightarrow> 'p list \<Rightarrow> 'p PropertyLocation \<Rightarrow> string" where
  "full_disclosure_text env ps loc =
     ''The following is a listing of all files in a codebase:'' @ nl @
     join nl (map (str_of env) ps) @ nl @
     nl @
     ''At the end of this message is a listing of all file contents.'' @ nl @
     nl @
     ''The file '' @ str_of env (rel_path loc) @ '' contains one or more propositions'' @ nl @
     ''about the codebase. The proposition we are interested in is on line'' @ nl @
     str_int (line_num loc) @ '', and is followed by a proof.'' @ nl @
     nl @
     ''In your response, state whether the proof (not the proposition) is correct.'' @ nl @
     correctness_blurb @ nl @
     ''        '' @ nl @
     nl @
     ''File contents:'' @ nl @
     join nl (map (\<lambda>p. format_file env (read_text env p) p) ps) @ nl @
     ''            ''"

definition incremental_disclosure_text ::
  "'p env \<Rightarrow> 'p list \<Rightarrow> string \<Rightarrow> 'p PropertyLocation \<Rightarrow> string" where
  "incremental_disclosure_text env ps deps loc =
     ''The following is a listing of all files in a codebase:'' @ nl @
     join nl (map (str_of env) ps) @ nl @
     nl @
     deps @ nl @
     nl @
     ''At the end of this message is a listing of the contents of '' @ str_of env (rel_path loc) @ ''.'' @ nl @
     ''This file contains one or more propositions'' @ nl @
     ''about the codebase. The proposition we are interested in is on line'' @ nl @
     str_int (line_num loc) @ '', and is followed by a proof.'' @ nl @
     nl @
     ''The goal of this conversation is to determine whether the proof '' @ nl @
     ''(not the proposition) is correct.'' @ nl @
     nl @
     ''Your responses in this conversation can be one of the following.'' @ nl @
     nl @
     ''1. Request files'' @ nl @
     nl @
     ''In this response, you may request to see additional files from the codebase in'' @ nl @
     ''order to ultimately determine whether the proof is correct. They will be'' @ nl @
     ''provided to you in the next message. You will have the opportunity to request'' @ nl @
     ''further files if needed, and we will repeat this process until you are ready to'' @ nl @
     ''make a final determination. You can request up to '' @ str_nat MAX_FILES_REQUESTED @ '' files'' @ nl @
     ''at a time.'' @ nl @
     nl @
     ''2. Correctness verdict'' @ nl @
     nl @
     ''In this response, state whether the proof is correct.'' @ nl @
     correctness_blurb @ nl @
     ''(Use this response only if you have seen enough of'' @ nl @
     ''the codebase to make a determination.)'' @ nl @
     nl @
     ''File contents:'' @ nl @
     format_file env (read_text env (rel_path loc)) (rel_path loc) @ nl @
     ''            ''"

definition subsequent_text :: "'p env \<Rightarrow> 'p list \<Rightarrow> string" where
  "subsequent_text env fs =
     ''The requested files are given below.'' @ nl @
     nl @
     join nl (map (\<lambda>p. format_file env (read_text env p) p) fs) @ nl @
     ''        ''"

fun render :: "'p env \<Rightarrow> 'p msg_content \<Rightarrow> string" where
  "render env (InitialFull ps loc) = full_disclosure_text env ps loc"
| "render env (InitialIncremental ps deps loc) = incremental_disclosure_text env ps deps loc"
| "render env (Subsequent fs) = subsequent_text env fs"
| "render env (Reply s) = s"

section \<open>The linter object\<close>

record 'p linter =
  rel_paths :: "'p list"
  property_locations :: "'p PropertyLocation list"
  max_messages :: int
  exclude_full_files :: bool
  python_deps_text :: string
  max_tokens_total :: "int option"
  max_tokens_per_property :: "int option"

text \<open>
  \<^verbatim>\<open>Linter.__init__\<close>. The results of the collaborators \<^verbatim>\<open>get_rel_paths\<close>,
  \<^verbatim>\<open>extract_propositions\<close> (the line numbers found in each file) and
  \<^verbatim>\<open>get_deps_rec\<close> (the JSON dump of the dependency graph, \<open>None\<close> when the graph is
  empty) are arguments. The vector index is built but never read and is left out.
\<close>

definition init ::
  "'p env \<Rightarrow> 'p list \<Rightarrow> ('p \<Rightarrow> int list) \<Rightarrow> string option \<Rightarrow>
   int \<Rightarrow> int \<Rightarrow> int \<Rightarrow> int option \<Rightarrow> int option \<Rightarrow> fatal + 'p linter" where
  "init env paths props deps_json max_messages' min_length_to_exclude_full_files max_files
        max_tokens_total' max_tokens_per_property' =
     (if int (length paths) > max_files
      then Inl (ValueError (''Too many files: '' @ str_nat (length paths)))
      else
        let documents = map (read_text env) paths
        in Inr \<lparr>
          rel_paths = paths,
          property_locations =
            concat (map (\<lambda>p. map (\<lambda>n. \<lparr>rel_path = p, line_num = n\<rparr>) (props p)) paths),
          max_messages = max_messages',
          exclude_full_files =
            (sum_list (map (\<lambda>doc. int (length doc)) documents)
               \<ge> min_length_to_exclude_full_files),
          python_deps_text =
            (case deps_json of
               Some j \<Rightarrow> ''Here is the dependency graph of the codebase:'' @ nl @ j @ nl @ nl
             | None \<Rightarrow> ''''),
          max_tokens_total = max_tokens_total',
          max_tokens_per_property = max_tokens_per_property'
        \<rparr>)"

definition build_initial_message :: "'p linter \<Rightarrow> 'p PropertyLocation \<Rightarrow> 'p msg_content" where
  "build_initial_message l loc =
     (if \<not> exclude_full_files l
      then InitialFull (rel_paths l) loc
      else InitialIncremental (rel_paths l) (python_deps_text l) loc)"

definition build_subsequent_message :: "'p list \<Rightarrow> 'p msg_content" where
  "build_subsequent_message files_to_show = Subsequent files_to_show"

definition chosen_response_format :: "'p linter \<Rightarrow> response_format" where
  "chosen_response_format l =
     (if exclude_full_files l then FullFilesExcludedResponse else FullFilesIncludedResponse)"

section \<open>The reasoning service\<close>

text \<open>
  A request carries what \<^verbatim>\<open>check_proof\<close> passes to \<^verbatim>\<open>parse\<close> besides the fixed
  model settings. A reply is one of the exceptions the code distinguishes, any other
  exception, or a completion with its usage (the completion token count), the
  message content and the parsed payload, each possibly absent.
\<close>

record 'p request =
  req_max_completion_tokens :: "int option"
  req_messages :: "'p message list"
  req_response_format :: response_format

record completion =
  usage :: "nat option"
  resp_content :: "string option"
  parsed :: "response_data option"

datatype reply =
  BadRequestError string
| LengthFinishReasonError string
| OtherException string
| Completion completion

text \<open>The service answers the \<open>i\<close>-th call of a conversation (counted from 0).\<close>

type_synonym 'p service = "nat \<Rightarrow> 'p request \<Rightarrow> reply"

section \<open>One conversation: \<^verbatim>\<open>Linter.check_proof\<close>\<close>

text \<open>
  The local variables of \<^verbatim>\<open>check_proof\<close>. \<open>turns\<close> and \<open>calls\<close> are not in the
  source: they count the loop iterations entered and the calls issued.
\<close>

record 'p conv =
  files_shown :: "'p set"
  messages :: "'p message list"
  input_tokens_in_messages :: int
  input_tokens_sent :: int
  completion_tokens_used :: int
  turns :: nat
  calls :: nat

datatype 'p outcome =
  Returned "'p ProofCheckResult" int
| Raised fatal

datatype 'p step =
  Continue "'p conv"
| Stop "'p outcome" "'p conv"

definition count_input_tokens :: "'p env \<Rightarrow> 'p message list \<Rightarrow> int" where
  "count_input_tokens env ms =
     sum_list (map (\<lambda>m. int (enc_len env (render env (content m))) + MESSAGE_ENVELOPE_TOKENS)
                   (filter (\<lambda>m. role m = User) ms))"

text \<open>Python's \<^verbatim>\<open>x or d\<close> on an optional integer: \<^verbatim>\<open>None\<close> and \<^verbatim>\<open>0\<close> are falsy.\<close>

definition or_default :: "int option \<Rightarrow> int \<Rightarrow> int" where
  "or_default x d = (case x of None \<Rightarrow> d | Some v \<Rightarrow> if v = 0 then d else v)"

definition failure_result :: "'p PropertyLocation \<Rightarrow> string \<Rightarrow> 'p ProofCheckResult" where
  "failure_result loc m =
     \<lparr>property_location = loc, correctness_explanation = OutcomeFailure (Failure m)\<rparr>"

text \<open>Lines 343 to 349: the files to show in answer to a request.\<close>

definition resolve_files_requested ::
  "'p::linorder env \<Rightarrow> 'p set \<Rightarrow> string list \<Rightarrow> 'p set \<Rightarrow> 'p list" where
  "resolve_files_requested env all_files requested shown =
     take MAX_FILES_REQUESTED
       (sorted_list_of_set ((all_files \<inter> path_of env ` set requested) - shown))"

text \<open>Lines 334 to 364: the two kinds of payload.\<close>

definition handle_payload ::
  "'p::linorder env \<Rightarrow> 'p linter \<Rightarrow> 'p PropertyLocation \<Rightarrow> response_data \<Rightarrow> 'p conv \<Rightarrow> 'p step" where
  "handle_payload env l loc response_data st =
     (case response_data of
        DataCorrectnessExplanation ce \<Rightarrow>
          Stop (Returned \<lparr>property_location = loc,
                          correctness_explanation = OutcomeCorrectness ce\<rparr>
                  (completion_tokens_used st + input_tokens_sent st)) st
      | DataFilesRequested fr \<Rightarrow>
          (let fs = resolve_files_requested env (set (rel_paths l))
                      (files_requested fr) (files_shown st);
               st' = st\<lparr>files_shown := files_shown st \<union> set fs\<rparr>
           in if fs = []
              then Stop (Raised (RuntimeError ''Invalid response'')) st'
              else Continue (st'\<lparr>messages := messages st' @
                     [\<lparr>role = User, content = build_subsequent_message fs\<rparr>]\<rparr>)))"

text \<open>Lines 317 to 332: what happens once the call has returned a completion.\<close>

definition handle_response ::
  "'p::linorder env \<Rightarrow> 'p linter \<Rightarrow> 'p PropertyLocation \<Rightarrow> completion \<Rightarrow> 'p conv \<Rightarrow> 'p step" where
  "handle_response env l loc resp st =
     (case usage resp of
        None \<Rightarrow> Stop (Raised (RuntimeError ''No token usage available'')) st
      | Some completion_tokens \<Rightarrow>
          (let st2 = st\<lparr>completion_tokens_used := completion_tokens_used st + int completion_tokens,
                        input_tokens_sent := input_tokens_in_messages st\<rparr>
           in (case resp_content resp of
                 None \<Rightarrow> Stop (Raised (RuntimeError ''No response from LLM'')) st2
               | Some c \<Rightarrow>
                   (let st3 = st2\<lparr>messages := messages st2 @
                                  [\<lparr>role = Assistant, content = Reply c\<rparr>]\<rparr>
                    in (case parsed resp of
                          None \<Rightarrow> Stop (Raised (RuntimeError ''No response from LLM'')) st3
                        | Some response_data \<Rightarrow> handle_payload env l loc response_data st3)))))"

text \<open>
  Lines 297 to 316: the call. A payload that the response class of the request cannot
  hold never reaches the caller: the client library validates the content against the
  class and raises.
\<close>

definition call_model ::
  "'p::linorder env \<Rightarrow> 'p linter \<Rightarrow> 'p service \<Rightarrow> 'p PropertyLocation \<Rightarrow> int option \<Rightarrow>
   int option \<Rightarrow> 'p conv \<Rightarrow> 'p step" where
  "call_model env l svc loc max_tokens max_completion_tokens st =
     (let st1 = st\<lparr>calls := Suc (calls st)\<rparr>
      in case svc (calls st)
                \<lparr>req_max_completion_tokens = max_completion_tokens,
                 req_messages = messages st,
                 req_response_format = chosen_response_format l\<rparr> of
           BadRequestError e \<Rightarrow>
             Stop (Returned (failure_result loc e) (or_default max_tokens MAX_CONTEXT_LENGTH)) st1
         | LengthFinishReasonError e \<Rightarrow>
             Stop (Returned (failure_result loc e) (or_default max_tokens MAX_CONTEXT_LENGTH)) st1
         | OtherException e \<Rightarrow> Stop (Raised (ServiceException e)) st1
         | Completion resp \<Rightarrow>
             (if (case parsed resp of None \<Rightarrow> False
                  | Some d \<Rightarrow> \<not> admits (chosen_response_format l) d)
              then Stop (Raised ValidationError) st1
              else handle_response env l loc resp st1))"

text \<open>The body of the \<^verbatim>\<open>for\<close> loop, lines 271 to 364.\<close>

definition turn ::
  "'p::linorder env \<Rightarrow> 'p linter \<Rightarrow> 'p service \<Rightarrow> 'p PropertyLocation \<Rightarrow> int option \<Rightarrow>
   'p conv \<Rightarrow> 'p step" where
  "turn env l svc loc max_tokens st0 =
     (let st = st0\<lparr>input_tokens_in_messages := count_input_tokens env (messages st0),
                   turns := Suc (turns st0)\<rparr>
      in case max_tokens of
           None \<Rightarrow> call_model env l svc loc max_tokens None st
         | Some c \<Rightarrow>
             (let max_completion_tokens =
                    c - completion_tokens_used st - input_tokens_in_messages st
              in if max_completion_tokens \<le> 0
                 then Stop (Returned (failure_result loc ''Token limit reached'')
                              (completion_tokens_used st + input_tokens_sent st)) st
                 else call_model env l svc loc max_tokens (Some max_completion_tokens) st))"

text \<open>
  The loop \<^verbatim>\<open>for _ in range(self._max_messages)\<close> with its \<^verbatim>\<open>else\<close> clause; the
  natural number is the count of iterations left.
\<close>

fun check_proof_loop ::
  "'p::linorder env \<Rightarrow> 'p linter \<Rightarrow> 'p service \<Rightarrow> 'p PropertyLocation \<Rightarrow> int option \<Rightarrow>
   nat \<Rightarrow> 'p conv \<Rightarrow> 'p outcome \<times> 'p conv" where
  "check_proof_loop env l svc loc max_tokens 0 st =
     (Raised (TimeoutError ''No result after max messages''), st)"
| "check_proof_loop env l svc loc max_tokens (Suc n) st =
     (case turn env l svc loc max_tokens st of
        Stop out st' \<Rightarrow> (out, st')
      | Continue st' \<Rightarrow> check_proof_loop env l svc loc max_tokens n st')"

definition initial_conv :: "'p linter \<Rightarrow> 'p PropertyLocation \<Rightarrow> 'p conv" where
  "initial_conv l loc =
     \<lparr>files_shown = {},
      messages = [\<lparr>role = User, content = build_initial_message l loc\<rparr>],
      input_tokens_in_messages = 0,
      input_tokens_sent = 0,
      completion_tokens_used = 0,
      turns = 0,
      calls = 0\<rparr>"

definition check_proof ::
  "'p::linorder env \<Rightarrow> 'p linter \<Rightarrow> 'p service \<Rightarrow> 'p PropertyLocation \<Rightarrow> int option \<Rightarrow>
   'p outcome \<times> 'p conv" where
  "check_proof env l svc loc max_tokens =
     check_proof_loop env l svc loc max_tokens (nat (max_messages l)) (initial_conv l loc)"

section \<open>The batch: \<^verbatim>\<open>Linter.check_proofs\<close>\<close>

text \<open>
  \<open>ret\<close> and \<open>tokens_used\<close> are the variables of the source. \<open>ceilings\<close> and \<open>costs\<close>
  record, for the properties handled so far, the \<^verbatim>\<open>max_tokens\<close> passed to each
  conversation and the token count each one returned.
\<close>

record 'p run =
  ret :: "'p ProofCheckResult list"
  tokens_used :: int
  ceilings :: "int option list"
  costs :: "int list"

text \<open>Lines 223 to 241.\<close>

definition next_max_tokens :: "'p linter \<Rightarrow> int \<Rightarrow> int option" where
  "next_max_tokens l used =
     (if max_tokens_per_property l = None \<and> max_tokens_total l = None then None
      else if max_tokens_per_property l = None
        then Some (min (the (max_tokens_total l) - used) MAX_CONTEXT_LENGTH)
      else if max_tokens_total l = None
        then Some (min (the (max_tokens_per_property l)) MAX_CONTEXT_LENGTH)
      else Some (min (the (max_tokens_per_property l))
                  (min (the (max_tokens_total l) - used) MAX_CONTEXT_LENGTH)))"

text \<open>The \<open>k\<close>-th property of the run talks to the service \<open>svc k\<close>.\<close>

fun check_proofs_loop ::
  "'p::linorder env \<Rightarrow> 'p linter \<Rightarrow> (nat \<Rightarrow> 'p service) \<Rightarrow> 'p PropertyLocation list \<Rightarrow>
   'p run \<Rightarrow> fatal option \<times> 'p run" where
  "check_proofs_loop env l svc [] rs = (None, rs)"
| "check_proofs_loop env l svc (loc # locs) rs =
     (let max_tokens = next_max_tokens l (tokens_used rs);
          rs1 = rs\<lparr>ceilings := ceilings rs @ [max_tokens]\<rparr>
      in (case fst (check_proof env l (svc (length (ret rs))) loc max_tokens) of
            Raised e \<Rightarrow> (Some e, rs1)
          | Returned pcr tokens_just_used \<Rightarrow>
              check_proofs_loop env l svc locs
                (rs1\<lparr>ret := ret rs1 @ [pcr],
                     tokens_used := tokens_used rs1 + tokens_just_used,
                     costs := costs rs1 @ [tokens_just_used]\<rparr>)))"

definition initial_run :: "'p run" where
  "initial_run = \<lparr>ret = [], tokens_used = 0, ceilings = [], costs = []\<rparr>"

definition check_proofs ::
  "'p::linorder env \<Rightarrow> 'p linter \<Rightarrow> (nat \<Rightarrow> 'p service) \<Rightarrow> fatal + 'p ProofCheckResult list" where
  "check_proofs env l svc =
     (case check_proofs_loop env l svc (property_locations l) initial_run of
        (None, rs) \<Rightarrow> Inr (ret rs)
      | (Some e, rs) \<Rightarrow> Inl e)"

section \<open>The budget rule as the specification words it\<close>



section \<open>The state at the start of a turn\<close>

text \<open>
  \<open>state_after_turns \<dots> k st\<close> is the state reached from \<open>st\<close> once \<open>k\<close> turns have
  run and each of them continued the conversation; it is \<open>None\<close> when one of them
  ended it.
\<close>

fun state_after_turns ::
  "'p::linorder env \<Rightarrow> 'p linter \<Rightarrow> 'p service \<Rightarrow> 'p PropertyLocation \<Rightarrow> int option \<Rightarrow>
   nat \<Rightarrow> 'p conv \<Rightarrow> 'p conv option" where
  "state_after_turns env l svc loc max_tokens 0 st = Some st"
| "state_after_turns env l svc loc max_tokens (Suc k) st =
     (case turn env l svc loc max_tokens st of
        Continue st' \<Rightarrow> state_after_turns env l svc loc max_tokens k st'
      | Stop out st' \<Rightarrow> None)"

section \<open>File resolution as the specification words it\<close>

text \<open>
  Keep the requested paths that are known, drop the ones already shown, remove
  duplicates, sort, and keep at most \<open>MAX_FILES_REQUESTED\<close>.
\<close>

definition spec_resolve ::
  "'p::linorder env \<Rightarrow> 'p list \<Rightarrow> string list \<Rightarrow> 'p set \<Rightarrow> 'p list" where
  "spec_resolve env known requested shown =
     take MAX_FILES_REQUESTED
       (sort (remdups (filter (\<lambda>p. p \<notin> shown)
          (filter (\<lambda>p. p \<in> set known) (map (path_of env) requested)))))"

section \<open>Files inlined by follow-up messages\<close>

fun follow_up_files :: "'p message list \<Rightarrow> 'p list" where
  "follow_up_files [] = []"
| "follow_up_files (m # ms) =
     (case content m of Subsequent fs \<Rightarrow> fs | _ \<Rightarrow> []) @ follow_up_files ms"

section \<open>A small concrete run\<close>

text \<open>
  Three files, two properties, a tokenizer that counts ten tokens for every text, and
  paths that are their own strings. The linter below is in incremental-disclosure mode
  with a total budget of 1000 tokens.
\<close>

definition demo_env :: "string env" where
  "demo_env =
     \<lparr>path_of = (\<lambda>s. s), str_of = (\<lambda>p. p), read_text = (\<lambda>p. ''text of '' @ p),
      format_file = (\<lambda>t p. p @ '': '' @ t), enc_len = (\<lambda>s. 10)\<rparr>"

definition demo_loc :: "string PropertyLocation" where
  "demo_loc = \<lparr>rel_path = ''a.py'', line_num = 3\<rparr>"

definition demo_linter :: "string linter" where
  "demo_linter =
     \<lparr>rel_paths = [''a.py'', ''b.py'', ''c.py''],
      property_locations = [demo_loc, \<lparr>rel_path = ''b.py'', line_num = 7\<rparr>],
      max_messages = 50,
      exclude_full_files = True,
      python_deps_text = [],
      max_tokens_total = Some 1000,
      max_tokens_per_property = None\<rparr>"

definition verdict_reply :: reply where
  "verdict_reply =
     Completion \<lparr>usage = Some 50, resp_content = Some ''ok'',
                 parsed = Some (DataCorrectnessExplanation (CorrectnessExplanation Correct ''fine''))\<rparr>"

definition files_reply :: "string list \<Rightarrow> reply" where
  "files_reply fs =
     Completion \<lparr>usage = Some 20, resp_content = Some ''files'',
                 parsed = Some (DataFilesRequested (FilesRequested fs))\<rparr>"

definition verdict_service :: "string service" where
  "verdict_service i req = verdict_reply"

text \<open>
  Services that ask for files: \<open>request_service\<close> asks for \<^verbatim>\<open>b.py\<close>, then for
  \<^verbatim>\<open>b.py\<close> again together with an unknown path; \<open>browse_service\<close> asks for a new file
  at every call; \<open>own_file_service\<close> asks for the file of the property itself.
\<close>

definition request_service :: "string service" where
  "request_service i req =
     (if i = 0 then files_reply [''b.py'']
      else files_reply [''b.py'', ''missing.py'', ''b.py''])"

definition browse_service :: "string service" where
  "browse_service i req = (if i = 0 then files_reply [''b.py''] else files_reply [''c.py''])"

definition own_file_service :: "string service" where
  "own_file_service i req = (if i = 0 then files_reply [''a.py''] else verdict_reply)"

definition rejecting_service :: "string service" where
  "rejecting_service i req =
     (if i = 0 then files_reply [''b.py''] else BadRequestError ''context length exceeded'')"

text \<open>The state of the demo conversation after a first turn that disclosed \<^verbatim>\<open>b.py\<close>.\<close>

definition demo_state1 :: "string conv" where
  "demo_state1 =
     \<lparr>files_shown = {''b.py''},
      messages =
        [\<lparr>role = User, content = InitialIncremental [''a.py'', ''b.py'', ''c.py''] [] demo_loc\<rparr>,
         \<lparr>role = Assistant, content = Reply ''files''\<rparr>,
         \<lparr>role = User, content = Subsequent [''b.py'']\<rparr>],
      input_tokens_in_messages = 310,
      input_tokens_sent = 310,
      completion_tokens_used = 20,
      turns = 1,
      calls = 1\<rparr>"

text \<open>The same codebase with two turns allowed and no budget.\<close>

definition browsing_linter :: "string linter" where
  "browsing_linter = demo_linter\<lparr>max_messages := 2, max_tokens_total := None\<rparr>"

text \<open>The batch state once a first property has been charged the whole budget.\<close>

definition demo_loc2 :: "string PropertyLocation" where
  "demo_loc2 = \<lparr>rel_path = ''b.py'', line_num = 7\<rparr>"

definition charged_run :: "string run" where
  "charged_run =
     \<lparr>ret = [failure_result demo_loc ''context length exceeded''],
      tokens_used = 1000, ceilings = [Some 1000], costs = [1000]\<rparr>"

text \<open>The same codebase below the threshold: every file is inlined at once.\<close>

definition full_linter :: "string linter" where
  "full_linter = demo_linter\<lparr>exclude_full_files := False, max_tokens_total := None\<rparr>"

text \<open>A codebase of nine files, for a request of eight of them.\<close>

definition wide_linter :: "string linter" where
  "wide_linter =
     demo_linter\<lparr>rel_paths := [''a'', ''b'', ''c'', ''d'', ''e'', ''f'', ''g'', ''h'', ''i'']\<rparr>"

definition wide_request :: "string list" where
  "wide_request = [''h'', ''c'', ''a'', ''g'', ''b'', ''i'', ''e'', ''d'']"

section \<open>Continuing turns\<close>

text \<open>
  A turn continues the conversation in one situation only: the call was issued, the
  completion carried usage, content and a file request that resolved to at least one
  file. The next state is then determined.
\<close>

lemma handle_payload_Continue:
  assumes "handle_payload env l loc d st = Continue st'"
  shows "\<exists>fr. d = DataFilesRequested fr \<and>
           resolve_files_requested env (set (rel_paths l)) (files_requested fr) (files_shown st) \<noteq> [] \<and>
           st' = st\<lparr>files_shown := files_shown st \<union>
                      set (resolve_files_requested env (set (rel_paths l)) (files_requested fr) (files_shown st)),
                    messages := messages st @
                      [\<lparr>role = User, content = Subsequent
                         (resolve_files_requested env (set (rel_paths l)) (files_requested fr) (files_shown st))\<rparr>]\<rparr>"
  using assms
  by (cases d) (auto simp: handle_payload_def Let_def build_subsequent_message_def split: if_splits)

lemma handle_response_Continue:
  assumes "handle_response env l loc resp st = Continue st'"
  shows "\<exists>ct c fr. usage resp = Some ct \<and> resp_content resp = Some c \<and>
           parsed resp = Some (DataFilesRequested fr) \<and>
           resolve_files_requested env (set (rel_paths l)) (files_requested fr) (files_shown st) \<noteq> [] \<and>
           st' = st\<lparr>completion_tokens_used := completion_tokens_used st + int ct,
                    input_tokens_sent := input_tokens_in_messages st,
                    files_shown := files_shown st \<union>
                      set (resolve_files_requested env (set (rel_paths l)) (files_requested fr) (files_shown st)),
                    messages := messages st @
                      [\<lparr>role = Assistant, content = Reply c\<rparr>,
                       \<lparr>role = User, content = Subsequent
                         (resolve_files_requested env (set (rel_paths l)) (files_requested fr) (files_shown st))\<rparr>]\<rparr>"
  using assms
  by (auto simp: handle_response_def Let_def split: option.splits dest!: handle_payload_Continue)

lemma call_model_Continue:
  assumes "call_model env l svc loc mt cap st = Continue st'"
  shows "\<exists>resp ct c fr.
           svc (calls st) \<lparr>req_max_completion_tokens = cap, req_messages = messages st,
                           req_response_format = chosen_response_format l\<rparr> = Completion resp \<and>
           usage resp = Some ct \<and> resp_content resp = Some c \<and>
           parsed resp = Some (DataFilesRequested fr) \<and>
           admits (chosen_response_format l) (DataFilesRequested fr) \<and>
           resolve_files_requested env (set (rel_paths l)) (files_requested fr) (files_shown st) \<noteq> [] \<and>
           st' = st\<lparr>calls := Suc (calls st),
                    completion_tokens_used := completion_tokens_used st + int ct,
                    input_tokens_sent := input_tokens_in_messages st,
                    files_shown := files_shown st \<union>
                      set (resolve_files_requested env (set (rel_paths l)) (files_requested fr) (files_shown st)),
                    messages := messages st @
                      [\<lparr>role = Assistant, content = Reply c\<rparr>,
                       \<lparr>role = User, content = Subsequent
                         (resolve_files_requested env (set (rel_paths l)) (files_requested fr) (files_shown st))\<rparr>]\<rparr>"
  using assms
  by (auto simp: call_model_def Let_def split: reply.splits if_splits option.splits
           dest!: handle_response_Continue)

lemma turn_Continue:
  assumes "turn env l svc loc mt st = Continue st'"
  shows "\<exists>resp ct c fr cap.
           svc (calls st) \<lparr>req_max_completion_tokens = cap, req_messages = messages st,
                           req_response_format = chosen_response_format l\<rparr> = Completion resp \<and>
           usage resp = Some ct \<and> resp_content resp = Some c \<and>
           parsed resp = Some (DataFilesRequested fr) \<and>
           admits (chosen_response_format l) (DataFilesRequested fr) \<and>
           resolve_files_requested env (set (rel_paths l)) (files_requested fr) (files_shown st) \<noteq> [] \<and>
           st' = st\<lparr>input_tokens_in_messages := count_input_tokens env (messages st),
                    turns := Suc (turns st),
                    calls := Suc (calls st),
                    completion_tokens_used := completion_tokens_used st + int ct,
                    input_tokens_sent := count_input_tokens env (messages st),
                    files_shown := files_shown st \<union>
                      set (resolve_files_requested env (set (rel_paths l)) (files_requested fr) (files_shown st)),
                    messages := messages st @
                      [\<lparr>role = Assistant, content = Reply c\<rparr>,
                       \<lparr>role = User, content = Subsequent
                         (resolve_files_requested env (set (rel_paths l)) (files_requested fr) (files_shown st))\<rparr>]\<rparr>"
  using assms
proof (cases mt)
  case None
  with assms have "call_model env l svc loc mt None
      (st\<lparr>input_tokens_in_messages := count_input_tokens env (messages st),
          turns := Suc (turns st)\<rparr>) = Continue st'"
    by (simp add: turn_def Let_def)
  from call_model_Continue [OF this] show ?thesis by simp blast
next
  case (Some c)
  with assms have "call_model env l svc loc mt
      (Some (c - completion_tokens_used st - count_input_tokens env (messages st)))
      (st\<lparr>input_tokens_in_messages := count_input_tokens env (messages st),
          turns := Suc (turns st)\<rparr>) = Continue st'"
    by (simp add: turn_def Let_def split: if_splits)
  from call_model_Continue [OF this] show ?thesis by simp blast
qed

section \<open>Turns that end the conversation, and the loop\<close>

lemma turn_token_limit:
  assumes "c - completion_tokens_used st - count_input_tokens env (messages st) \<le> 0"
  shows "turn env l svc loc (Some c) st =
           Stop (Returned (failure_result loc ''Token limit reached'')
                   (completion_tokens_used st + input_tokens_sent st))
                (st\<lparr>input_tokens_in_messages := count_input_tokens env (messages st),
                    turns := Suc (turns st)\<rparr>)"
  using assms by (simp add: turn_def Let_def)

lemma turn_issues_call:
  assumes "0 < c - completion_tokens_used st - count_input_tokens env (messages st)"
  shows "turn env l svc loc (Some c) st =
           call_model env l svc loc (Some c)
             (Some (c - completion_tokens_used st - count_input_tokens env (messages st)))
             (st\<lparr>input_tokens_in_messages := count_input_tokens env (messages st),
                 turns := Suc (turns st)\<rparr>)"
  using assms by (simp add: turn_def Let_def)

lemma turn_without_ceiling:
  "turn env l svc loc None st =
     call_model env l svc loc None None
       (st\<lparr>input_tokens_in_messages := count_input_tokens env (messages st),
           turns := Suc (turns st)\<rparr>)"
  by (simp add: turn_def Let_def)

lemma handle_payload_Stop:
  assumes "handle_payload env l loc d st = Stop out st'"
  shows "calls st' = calls st \<and> turns st' = turns st \<and> messages st' = messages st \<and>
         files_shown st \<subseteq> files_shown st' \<and>
         completion_tokens_used st' = completion_tokens_used st \<and>
         input_tokens_sent st' = input_tokens_sent st"
  using assms
  by (cases d) (auto simp: handle_payload_def Let_def split: if_splits)

lemma handle_response_Stop:
  assumes "handle_response env l loc resp st = Stop out st'"
  shows "calls st' = calls st \<and> turns st' = turns st \<and> files_shown st \<subseteq> files_shown st' \<and>
         (\<forall>m \<in> set (messages st'). m \<in> set (messages st) \<or> role m = Assistant)"
  using assms
  by (auto simp: handle_response_def Let_def split: option.splits dest!: handle_payload_Stop)

lemma call_model_Stop:
  assumes "call_model env l svc loc mt cap st = Stop out st'"
  shows "calls st' = Suc (calls st) \<and> turns st' = turns st \<and> files_shown st \<subseteq> files_shown st' \<and>
         (\<forall>m \<in> set (messages st'). m \<in> set (messages st) \<or> role m = Assistant)"
  using assms
  by (auto simp: call_model_def Let_def split: reply.splits if_splits
           dest!: handle_response_Stop)

lemma turn_Stop:
  assumes "turn env l svc loc mt st = Stop out st'"
  shows "calls st' \<le> Suc (calls st) \<and> turns st' = Suc (turns st) \<and>
         files_shown st \<subseteq> files_shown st' \<and>
         (\<forall>m \<in> set (messages st'). m \<in> set (messages st) \<or> role m = Assistant)"
  using assms
  by (auto simp: turn_def Let_def split: option.splits if_splits dest!: call_model_Stop)

lemma state_after_turns_add:
  "state_after_turns env l svc loc mt (j + k) st =
     (case state_after_turns env l svc loc mt j st of
        None \<Rightarrow> None
      | Some st' \<Rightarrow> state_after_turns env l svc loc mt k st')"
  by (induction j arbitrary: st) (auto split: step.splits)

lemma check_proof_loop_skip:
  assumes "state_after_turns env l svc loc mt k st = Some st'"
  shows "check_proof_loop env l svc loc mt (k + n) st = check_proof_loop env l svc loc mt n st'"
  using assms by (induction k arbitrary: st) (auto split: step.splits)

lemma state_after_turns_counts:
  assumes "state_after_turns env l svc loc mt k st = Some st'"
  shows "calls st' = calls st + k \<and> turns st' = turns st + k \<and>
         completion_tokens_used st \<le> completion_tokens_used st' \<and>
         files_shown st \<subseteq> files_shown st'"
  using assms
proof (induction k arbitrary: st)
  case 0
  then show ?case by simp
next
  case (Suc k)
  then obtain st1 where t: "turn env l svc loc mt st = Continue st1"
    and r: "state_after_turns env l svc loc mt k st1 = Some st'"
    by (auto split: step.splits)
  from turn_Continue [OF t]
  have "calls st1 = Suc (calls st)" "turns st1 = Suc (turns st)"
    "completion_tokens_used st \<le> completion_tokens_used st1"
    "files_shown st \<subseteq> files_shown st1"
    by auto
  with Suc.IH [OF r] show ?case by auto
qed

lemma check_proof_loop_bounds:
  "turns (snd (check_proof_loop env l svc loc mt n st)) \<le> turns st + n \<and>
   calls (snd (check_proof_loop env l svc loc mt n st)) \<le> calls st + n \<and>
   files_shown st \<subseteq> files_shown (snd (check_proof_loop env l svc loc mt n st))"
proof (induction n arbitrary: st)
  case 0
  then show ?case by simp
next
  case (Suc n)
  show ?case
  proof (cases "turn env l svc loc mt st")
    case (Continue st1)
    from turn_Continue [OF Continue]
    have "calls st1 = Suc (calls st)" "turns st1 = Suc (turns st)"
      "files_shown st \<subseteq> files_shown st1"
      by auto
    with Suc.IH [of st1] Continue show ?thesis by auto
  next
    case (Stop out st1)
    from turn_Stop [OF Stop] Stop show ?thesis by auto
  qed
qed

lemma check_proof_loop_timeout:
  "fst (check_proof_loop env l svc loc mt n st) = Raised (TimeoutError m) \<longleftrightarrow>
   m = ''No result after max messages'' \<and> state_after_turns env l svc loc mt n st \<noteq> None"
proof (induction n arbitrary: st)
  case 0
  then show ?case by auto
next
  case (Suc n)
  show ?case
  proof (cases "turn env l svc loc mt st")
    case (Continue st1)
    with Suc.IH [of st1] show ?thesis by simp
  next
    case (Stop out st1)
    have "out \<noteq> Raised (TimeoutError m)"
      using Stop
      by (auto simp: turn_def call_model_def handle_response_def handle_payload_def Let_def
               split: option.splits if_splits reply.splits response_data.splits)
    with Stop show ?thesis by simp
  qed
qed

lemma check_proofs_loop_abort:
  assumes "fst (check_proof env l (svc (length (ret rs))) loc
                  (next_max_tokens l (tokens_used rs))) = Raised e"
  shows "check_proofs_loop env l svc (loc # locs) rs =
           (Some e, rs\<lparr>ceilings := ceilings rs @ [next_max_tokens l (tokens_used rs)]\<rparr>)"
  using assms by (simp add: Let_def)

lemma check_proofs_loop_charge:
  assumes "fst (check_proof env l (svc (length (ret rs))) loc
                  (next_max_tokens l (tokens_used rs))) = Returned pcr cost"
  shows "check_proofs_loop env l svc (loc # locs) rs =
           check_proofs_loop env l svc locs
             (rs\<lparr>ceilings := ceilings rs @ [next_max_tokens l (tokens_used rs)],
                 ret := ret rs @ [pcr],
                 tokens_used := tokens_used rs + cost,
                 costs := costs rs @ [cost]\<rparr>)"
  using assms by (simp add: Let_def)

section \<open>Budget allocation across the batch\<close>








section \<open>The token limit inside a conversation\<close>

lemma count_input_tokens_initial:
  "count_input_tokens env (messages (initial_conv l loc)) =
     int (enc_len env (render env (build_initial_message l loc))) + MESSAGE_ENVELOPE_TOKENS"
  by (simp add: count_input_tokens_def initial_conv_def)

lemma check_proof_at_turn:
  assumes "state_after_turns env l svc loc mt k (initial_conv l loc) = Some st"
    and "k < nat (max_messages l)"
    and "turn env l svc loc mt st = Stop out st'"
  shows "check_proof env l svc loc mt = (out, st')"
proof -
  from assms(2) obtain n where n: "nat (max_messages l) = k + Suc n"
    by (metis less_iff_Suc_add add_Suc_right)
  show ?thesis
    unfolding check_proof_def n check_proof_loop_skip [OF assms(1)]
    using assms(3) by simp
qed

lemma first_turn_limit:
  assumes "0 < max_messages l"
    and "c \<le> int (enc_len env (render env (build_initial_message l loc))) + MESSAGE_ENVELOPE_TOKENS"
  shows "check_proof env l svc loc (Some c) =
           (Returned (failure_result loc ''Token limit reached'') 0,
            (initial_conv l loc)\<lparr>input_tokens_in_messages :=
                 int (enc_len env (render env (build_initial_message l loc))) + MESSAGE_ENVELOPE_TOKENS,
               turns := 1\<rparr>)"
proof -
  have "c - completion_tokens_used (initial_conv l loc)
          - count_input_tokens env (messages (initial_conv l loc)) \<le> 0"
    using assms(2) by (simp add: count_input_tokens_initial) (simp add: initial_conv_def)
  from turn_token_limit [OF this, of l svc loc]
  have "turn env l svc loc (Some c) (initial_conv l loc) =
      Stop (Returned (failure_result loc ''Token limit reached'') 0)
        ((initial_conv l loc)\<lparr>input_tokens_in_messages :=
                 int (enc_len env (render env (build_initial_message l loc))) + MESSAGE_ENVELOPE_TOKENS,
               turns := 1\<rparr>)"
    by (simp add: count_input_tokens_initial) (simp add: initial_conv_def)
  moreover have "state_after_turns env l svc loc (Some c) 0 (initial_conv l loc)
      = Some (initial_conv l loc)" by simp
  ultimately show ?thesis
    using assms(1) check_proof_at_turn [of env l svc loc "Some c" 0] by simp
qed

lemma limit_at_turn:
  assumes "state_after_turns env l svc loc (Some c) k (initial_conv l loc) = Some st"
    and "k < nat (max_messages l)"
    and "c - completion_tokens_used st - count_input_tokens env (messages st) \<le> 0"
  shows "check_proof env l svc loc (Some c) =
           (Returned (failure_result loc ''Token limit reached'')
              (completion_tokens_used st + input_tokens_sent st),
            st\<lparr>input_tokens_in_messages := count_input_tokens env (messages st),
               turns := Suc (turns st)\<rparr>)"
    and "calls (snd (check_proof env l svc loc (Some c))) = k"
proof -
  show r: "check_proof env l svc loc (Some c) =
           (Returned (failure_result loc ''Token limit reached'')
              (completion_tokens_used st + input_tokens_sent st),
            st\<lparr>input_tokens_in_messages := count_input_tokens env (messages st),
               turns := Suc (turns st)\<rparr>)"
    by (rule check_proof_at_turn [OF assms(1,2) turn_token_limit [OF assms(3)]])
  from state_after_turns_counts [OF assms(1)] have "calls st = k" by (simp add: initial_conv_def)
  with r show "calls (snd (check_proof env l svc loc (Some c))) = k" by simp
qed

lemma count_input_tokens_user_only:
  "count_input_tokens env ms =
     sum_list (map (\<lambda>m. int (enc_len env (render env (content m))) + 300)
                   (filter (\<lambda>m. role m = User) ms))"
  by (simp add: count_input_tokens_def MESSAGE_ENVELOPE_TOKENS_def)

lemma render_initial_message:
  "render env (build_initial_message l loc) =
     (if exclude_full_files l
      then incremental_disclosure_text env (rel_paths l) (python_deps_text l) loc
      else full_disclosure_text env (rel_paths l) loc)"
  by (simp add: build_initial_message_def)

text \<open>
  Claim C2. Take a conversation with ceiling \<open>c\<close> whose first \<open>k\<close> turns continued and
  left the state \<open>st\<close>, with a turn still allowed. The input estimate is the sum, over
  the messages of role user only, of the tokenizer's count of the message text plus 300;
  the remaining allowance is \<open>c\<close> minus the completion tokens used minus that estimate.
  If the allowance is not positive, the conversation ends with a result that holds
  \<^verbatim>\<open>Failure("Token limit reached")\<close>, its cost is the completion tokens used plus the
  input estimate of the last call that succeeded, and no call is issued in this turn, so
  that exactly \<open>k\<close> calls were made. If it is positive, the call is issued with the
  allowance as its completion cap. In particular, when at least one turn is allowed and
  the estimate of the text of the initial message reaches the ceiling, the failure comes
  with cost 0 and no call.
\<close>

theorem token_limit_reached:
  "(state_after_turns env l svc loc (Some c) k (initial_conv l loc) = Some st \<and>
    k < nat (max_messages l) \<longrightarrow>
      (let estimate = sum_list (map (\<lambda>m. int (enc_len env (render env (content m))) + 300)
                                    (filter (\<lambda>m. role m = User) (messages st)));
           remaining = c - completion_tokens_used st - estimate
       in (remaining \<le> 0 \<longrightarrow>
             check_proof env l svc loc (Some c) =
               (Returned \<lparr>property_location = loc,
                          correctness_explanation =
                            OutcomeFailure (Failure ''Token limit reached'')\<rparr>
                  (completion_tokens_used st + input_tokens_sent st),
                st\<lparr>input_tokens_in_messages := estimate, turns := Suc (turns st)\<rparr>) \<and>
             calls (snd (check_proof env l svc loc (Some c))) = k) \<and>
          (0 < remaining \<longrightarrow>
             turn env l svc loc (Some c) st =
               call_model env l svc loc (Some c) (Some remaining)
                 (st\<lparr>input_tokens_in_messages := estimate, turns := Suc (turns st)\<rparr>)))) \<and>
   (0 < max_messages l \<and>
    c \<le> int (enc_len env
               (if exclude_full_files l
                then incremental_disclosure_text env (rel_paths l) (python_deps_text l) loc
                else full_disclosure_text env (rel_paths l) loc)) + 300 \<longrightarrow>
      fst (check_proof env l svc loc (Some c)) =
        Returned \<lparr>property_location = loc,
                  correctness_explanation =
                    OutcomeFailure (Failure ''Token limit reached'')\<rparr> 0 \<and>
      calls (snd (check_proof env l svc loc (Some c))) = 0)"
proof (intro conjI impI)
  assume a: "state_after_turns env l svc loc (Some c) k (initial_conv l loc) = Some st \<and>
    k < nat (max_messages l)"
  then have s: "state_after_turns env l svc loc (Some c) k (initial_conv l loc) = Some st"
    and k: "k < nat (max_messages l)" by simp_all
  show "let estimate = sum_list (map (\<lambda>m. int (enc_len env (render env (content m))) + 300)
                                    (filter (\<lambda>m. role m = User) (messages st)));
           remaining = c - completion_tokens_used st - estimate
       in (remaining \<le> 0 \<longrightarrow>
             check_proof env l svc loc (Some c) =
               (Returned \<lparr>property_location = loc,
                          correctness_explanation =
                            OutcomeFailure (Failure ''Token limit reached'')\<rparr>
                  (completion_tokens_used st + input_tokens_sent st),
                st\<lparr>input_tokens_in_messages := estimate, turns := Suc (turns st)\<rparr>) \<and>
             calls (snd (check_proof env l svc loc (Some c))) = k) \<and>
          (0 < remaining \<longrightarrow>
             turn env l svc loc (Some c) st =
               call_model env l svc loc (Some c) (Some remaining)
                 (st\<lparr>input_tokens_in_messages := estimate, turns := Suc (turns st)\<rparr>))"
    unfolding Let_def count_input_tokens_user_only [symmetric]
  proof (intro conjI impI)
    assume b: "c - completion_tokens_used st - count_input_tokens env (messages st) \<le> 0"
    from limit_at_turn(1) [OF s k b]
    show "check_proof env l svc loc (Some c) =
               (Returned \<lparr>property_location = loc,
                          correctness_explanation =
                            OutcomeFailure (Failure ''Token limit reached'')\<rparr>
                  (completion_tokens_used st + input_tokens_sent st),
                st\<lparr>input_tokens_in_messages := count_input_tokens env (messages st),
                   turns := Suc (turns st)\<rparr>)"
      by (simp add: failure_result_def)
    show "calls (snd (check_proof env l svc loc (Some c))) = k"
      by (rule limit_at_turn(2) [OF s k b])
  next
    assume "0 < c - completion_tokens_used st - count_input_tokens env (messages st)"
    then show "turn env l svc loc (Some c) st =
           call_model env l svc loc (Some c)
             (Some (c - completion_tokens_used st - count_input_tokens env (messages st)))
             (st\<lparr>input_tokens_in_messages := count_input_tokens env (messages st),
                 turns := Suc (turns st)\<rparr>)"
      by (rule turn_issues_call)
  qed
next
  assume a: "0 < max_messages l \<and>
    c \<le> int (enc_len env
               (if exclude_full_files l
                then incremental_disclosure_text env (rel_paths l) (python_deps_text l) loc
                else full_disclosure_text env (rel_paths l) loc)) + 300"
  then have m: "0 < max_messages l"
    and e: "c \<le> int (enc_len env (render env (build_initial_message l loc))) + MESSAGE_ENVELOPE_TOKENS"
    by (simp_all add: render_initial_message MESSAGE_ENVELOPE_TOKENS_def)
  from first_turn_limit [OF m e, of svc]
  show "fst (check_proof env l svc loc (Some c)) =
        Returned \<lparr>property_location = loc,
                  correctness_explanation =
                    OutcomeFailure (Failure ''Token limit reached'')\<rparr> 0"
    by (simp add: failure_result_def)
  from first_turn_limit [OF m e, of svc]
  show "calls (snd (check_proof env l svc loc (Some c))) = 0"
    by (simp add: initial_conv_def)
qed

lemma demo_first_turn:
  "310 < c \<Longrightarrow>
   state_after_turns demo_env demo_linter request_service demo_loc (Some c) 1
     (initial_conv demo_linter demo_loc) = Some demo_state1"
  by (simp add: demo_linter_def demo_env_def request_service_def files_reply_def demo_state1_def
        initial_conv_def turn_def call_model_def handle_response_def build_initial_message_def
        build_subsequent_message_def resolve_files_requested_def MAX_FILES_REQUESTED_def
        handle_payload_def count_input_tokens_def MAX_CONTEXT_LENGTH_def
        MESSAGE_ENVELOPE_TOKENS_def chosen_response_format_def eval_nat_numeral Let_def)

text \<open>
  In the demo conversation the second turn starts with two user messages and one
  assistant message, an estimate of 620 and 20 completion tokens used. A ceiling of 500
  ends it there; a ceiling of 700 leaves 60 tokens and the call is issued (it would not
  be if the assistant message were counted); a ceiling of 100 ends it at the first turn.
\<close>

theorem token_limit_reached_witness:
  "check_proof demo_env demo_linter request_service demo_loc (Some 500) =
     (Returned \<lparr>property_location = \<lparr>rel_path = ''a.py'', line_num = 3\<rparr>,
                correctness_explanation = OutcomeFailure (Failure ''Token limit reached'')\<rparr> 330,
      demo_state1\<lparr>input_tokens_in_messages := 620, turns := 2\<rparr>) \<and>
   calls (snd (check_proof demo_env demo_linter request_service demo_loc (Some 500))) = 1 \<and>
   turn demo_env demo_linter request_service demo_loc (Some 700) demo_state1 =
     call_model demo_env demo_linter request_service demo_loc (Some 700) (Some 60)
       (demo_state1\<lparr>input_tokens_in_messages := 620, turns := 2\<rparr>) \<and>
   fst (check_proof demo_env demo_linter request_service demo_loc (Some 100)) =
     Returned \<lparr>property_location = \<lparr>rel_path = ''a.py'', line_num = 3\<rparr>,
               correctness_explanation = OutcomeFailure (Failure ''Token limit reached'')\<rparr> 0 \<and>
   calls (snd (check_proof demo_env demo_linter request_service demo_loc (Some 100))) = 0"
proof -
  have k: "1 < nat (max_messages demo_linter)"
    by (simp add: demo_linter_def)
  have s5: "state_after_turns demo_env demo_linter request_service demo_loc (Some 500) 1
     (initial_conv demo_linter demo_loc) = Some demo_state1"
    by (rule demo_first_turn) simp
  have s7: "state_after_turns demo_env demo_linter request_service demo_loc (Some 700) 1
     (initial_conv demo_linter demo_loc) = Some demo_state1"
    by (rule demo_first_turn) simp
  have est: "sum_list (map (\<lambda>m. int (enc_len demo_env (render demo_env (content m))) + 300)
                (filter (\<lambda>m. role m = User) (messages demo_state1))) = 620"
    by (simp add: demo_state1_def demo_env_def)
  have used: "completion_tokens_used demo_state1 = 20" "input_tokens_sent demo_state1 = 310"
    "turns demo_state1 = 1"
    by (simp_all add: demo_state1_def)
  have c1: "calls demo_state1 = 1"
    by (simp add: demo_state1_def)
  from token_limit_reached [of demo_env demo_linter request_service demo_loc 500 1 demo_state1,
        THEN conjunct1, THEN mp, OF conjI [OF s5 k]]
  have first: "check_proof demo_env demo_linter request_service demo_loc (Some 500) =
     (Returned \<lparr>property_location = \<lparr>rel_path = ''a.py'', line_num = 3\<rparr>,
                correctness_explanation = OutcomeFailure (Failure ''Token limit reached'')\<rparr> 330,
      demo_state1\<lparr>input_tokens_in_messages := 620, turns := 2\<rparr>) \<and>
   calls (snd (check_proof demo_env demo_linter request_service demo_loc (Some 500))) = 1"
    unfolding Let_def est used using c1 by (simp add: demo_loc_def)
  from token_limit_reached [of demo_env demo_linter request_service demo_loc 700 1 demo_state1,
        THEN conjunct1, THEN mp, OF conjI [OF s7 k]]
  have middle: "turn demo_env demo_linter request_service demo_loc (Some 700) demo_state1 =
     call_model demo_env demo_linter request_service demo_loc (Some 700) (Some 60)
       (demo_state1\<lparr>input_tokens_in_messages := 620, turns := 2\<rparr>)"
    unfolding Let_def est used by (simp add: numeral_2_eq_2)
  have m: "0 < max_messages demo_linter"
    by (simp add: demo_linter_def)
  have e: "100 \<le> int (enc_len demo_env
               (if exclude_full_files demo_linter
                then incremental_disclosure_text demo_env (rel_paths demo_linter)
                       (python_deps_text demo_linter) demo_loc
                else full_disclosure_text demo_env (rel_paths demo_linter) demo_loc)) + 300"
    by (simp add: demo_env_def)
  from token_limit_reached [of demo_env demo_linter request_service demo_loc 100 0
        "initial_conv demo_linter demo_loc", THEN conjunct2, THEN mp, OF conjI [OF m e]]
  have last: "fst (check_proof demo_env demo_linter request_service demo_loc (Some 100)) =
     Returned \<lparr>property_location = \<lparr>rel_path = ''a.py'', line_num = 3\<rparr>,
               correctness_explanation = OutcomeFailure (Failure ''Token limit reached'')\<rparr> 0 \<and>
   calls (snd (check_proof demo_env demo_linter request_service demo_loc (Some 100))) = 0"
    by (simp add: demo_loc_def)
  from first middle last show ?thesis by (elim conjE, intro conjI) assumption+
qed

section \<open>Fatal conditions\<close>

lemma check_proof_timeout:
  assumes "state_after_turns env l svc loc mt (nat (max_messages l)) (initial_conv l loc) = Some st"
  shows "check_proof env l svc loc mt = (Raised (TimeoutError ''No result after max messages''), st)"
  using check_proof_loop_skip [OF assms, of 0] by (simp add: check_proof_def)

text \<open>
  Claim C7. A conversation enters at most \<open>max_messages\<close> turns and issues at most that
  many calls. If \<open>max_messages\<close> turns run and each of them continues the conversation,
  \<open>check_proof\<close> raises \<^verbatim>\<open>TimeoutError\<close> after exactly that many turns, and a run that
  reaches this property stops with that error: the result list is left as it was, so no
  failure result is recorded for the property, and the properties after it are not
  checked.
\<close>

theorem turns_bounded_then_timeout:
  "turns (snd (check_proof env l s loc mt)) \<le> nat (max_messages l) \<and>
   calls (snd (check_proof env l s loc mt)) \<le> nat (max_messages l) \<and>
   (state_after_turns env l s loc mt (nat (max_messages l)) (initial_conv l loc) \<noteq> None \<longrightarrow>
      fst (check_proof env l s loc mt) = Raised (TimeoutError ''No result after max messages'') \<and>
      turns (snd (check_proof env l s loc mt)) = nat (max_messages l)) \<and>
   (state_after_turns env l (svc (length (ret rs))) loc (next_max_tokens l (tokens_used rs))
        (nat (max_messages l)) (initial_conv l loc) \<noteq> None \<longrightarrow>
      check_proofs_loop env l svc (loc # locs) rs =
        (Some (TimeoutError ''No result after max messages''),
         rs\<lparr>ceilings := ceilings rs @ [next_max_tokens l (tokens_used rs)]\<rparr>))"
proof (intro conjI impI)
  from check_proof_loop_bounds [of env l s loc mt "nat (max_messages l)" "initial_conv l loc"]
  show "turns (snd (check_proof env l s loc mt)) \<le> nat (max_messages l)"
    and "calls (snd (check_proof env l s loc mt)) \<le> nat (max_messages l)"
    by (simp_all add: check_proof_def) (simp_all add: initial_conv_def)
next
  assume "state_after_turns env l s loc mt (nat (max_messages l)) (initial_conv l loc) \<noteq> None"
  then obtain st
    where st: "state_after_turns env l s loc mt (nat (max_messages l)) (initial_conv l loc) = Some st"
    by auto
  from check_proof_timeout [OF st]
  show "fst (check_proof env l s loc mt) = Raised (TimeoutError ''No result after max messages'')"
    by simp
  from state_after_turns_counts [OF st] check_proof_timeout [OF st]
  show "turns (snd (check_proof env l s loc mt)) = nat (max_messages l)"
    by (simp add: initial_conv_def)
next
  assume "state_after_turns env l (svc (length (ret rs))) loc (next_max_tokens l (tokens_used rs))
        (nat (max_messages l)) (initial_conv l loc) \<noteq> None"
  then obtain st
    where "state_after_turns env l (svc (length (ret rs))) loc (next_max_tokens l (tokens_used rs))
        (nat (max_messages l)) (initial_conv l loc) = Some st"
    by auto
  from check_proof_timeout [OF this]
  have "fst (check_proof env l (svc (length (ret rs))) loc (next_max_tokens l (tokens_used rs))) =
      Raised (TimeoutError ''No result after max messages'')"
    by simp
  then show "check_proofs_loop env l svc (loc # locs) rs =
        (Some (TimeoutError ''No result after max messages''),
         rs\<lparr>ceilings := ceilings rs @ [next_max_tokens l (tokens_used rs)]\<rparr>)"
    by (rule check_proofs_loop_abort)
qed

lemma browsing_two_turns:
  "state_after_turns demo_env browsing_linter browse_service demo_loc None 2
     (initial_conv browsing_linter demo_loc) \<noteq> None"
  by (simp add: browsing_linter_def demo_linter_def demo_env_def browse_service_def files_reply_def
        initial_conv_def turn_def call_model_def handle_response_def build_initial_message_def
        build_subsequent_message_def resolve_files_requested_def MAX_FILES_REQUESTED_def
        handle_payload_def count_input_tokens_def MAX_CONTEXT_LENGTH_def
        MESSAGE_ENVELOPE_TOKENS_def chosen_response_format_def eval_nat_numeral Let_def)

theorem turns_bounded_then_timeout_witness:
  "fst (check_proof demo_env browsing_linter browse_service demo_loc None) =
     Raised (TimeoutError ''No result after max messages'') \<and>
   turns (snd (check_proof demo_env browsing_linter browse_service demo_loc None)) = 2 \<and>
   check_proofs_loop demo_env browsing_linter (\<lambda>k. browse_service)
       (property_locations browsing_linter) initial_run =
     (Some (TimeoutError ''No result after max messages''),
      \<lparr>ret = [], tokens_used = 0, ceilings = [None], costs = []\<rparr>)"
proof -
  have n: "nat (max_messages browsing_linter) = 2"
    by (simp add: browsing_linter_def)
  have a: "state_after_turns demo_env browsing_linter browse_service demo_loc None
             (nat (max_messages browsing_linter)) (initial_conv browsing_linter demo_loc) \<noteq> None"
    unfolding n by (rule browsing_two_turns)
  have m: "next_max_tokens browsing_linter (tokens_used (initial_run :: string run)) = None"
    by (simp add: next_max_tokens_def browsing_linter_def demo_linter_def)
  have b: "state_after_turns demo_env browsing_linter
             ((\<lambda>k. browse_service) (length (ret (initial_run :: string run)))) demo_loc
             (next_max_tokens browsing_linter (tokens_used (initial_run :: string run)))
             (nat (max_messages browsing_linter)) (initial_conv browsing_linter demo_loc) \<noteq> None"
    unfolding m using a by simp
  note t = turns_bounded_then_timeout [of demo_env browsing_linter browse_service demo_loc None
      "\<lambda>k. browse_service" initial_run "[\<lparr>rel_path = ''b.py'', line_num = 7\<rparr>]"]
  from t [THEN conjunct2, THEN conjunct2, THEN conjunct1, THEN mp, OF a]
  have first: "fst (check_proof demo_env browsing_linter browse_service demo_loc None) =
     Raised (TimeoutError ''No result after max messages'') \<and>
   turns (snd (check_proof demo_env browsing_linter browse_service demo_loc None)) = 2"
    by (simp add: n)
  from t [THEN conjunct2, THEN conjunct2, THEN conjunct2, THEN mp, OF b]
  have "check_proofs_loop demo_env browsing_linter (\<lambda>k. browse_service)
       (property_locations browsing_linter) initial_run =
     (Some (TimeoutError ''No result after max messages''),
      \<lparr>ret = [], tokens_used = 0, ceilings = [None], costs = []\<rparr>)"
    unfolding m by (simp add: browsing_linter_def demo_linter_def initial_run_def)
  with first show ?thesis by simp
qed

text \<open>
  Claim C6. Take a conversation whose first \<open>k\<close> turns continued and left the state
  \<open>st\<close>, with a turn still allowed and the budget allowing a call. If the service
  answers with a well-formed completion whose payload is a file request and the request
  resolves to no file (every path unknown or already shown), \<open>check_proof\<close> raises
  \<^verbatim>\<open>RuntimeError\<close>, and a run that reaches this property stops with that error: the
  result list is left as it was, so no failure result is recorded.
\<close>

theorem empty_file_request_is_fatal:
  assumes "state_after_turns env l s loc mt k (initial_conv l loc) = Some st"
    and "k < nat (max_messages l)"
    and "cap = map_option (\<lambda>c. c - completion_tokens_used st
                                 - count_input_tokens env (messages st)) mt"
    and "\<forall>r. cap = Some r \<longrightarrow> 0 < r"
    and "s (calls st) \<lparr>req_max_completion_tokens = cap, req_messages = messages st,
                       req_response_format = chosen_response_format l\<rparr> = Completion resp"
    and "usage resp = Some u" and "resp_content resp = Some c"
    and "parsed resp = Some (DataFilesRequested fr)"
    and "exclude_full_files l"
    and "resolve_files_requested env (set (rel_paths l)) (files_requested fr) (files_shown st) = []"
  shows "fst (check_proof env l s loc mt) = Raised (RuntimeError ''Invalid response'') \<and>
         (s = svc (length (ret rs)) \<and> mt = next_max_tokens l (tokens_used rs) \<longrightarrow>
            check_proofs_loop env l svc (loc # locs) rs =
              (Some (RuntimeError ''Invalid response''),
               rs\<lparr>ceilings := ceilings rs @ [next_max_tokens l (tokens_used rs)]\<rparr>))"
proof -
  let ?st = "st\<lparr>input_tokens_in_messages := count_input_tokens env (messages st),
                 turns := Suc (turns st)\<rparr>"
  have call: "call_model env l s loc mt cap ?st =
      Stop (Raised (RuntimeError ''Invalid response''))
        (?st\<lparr>calls := Suc (calls st),
              completion_tokens_used := completion_tokens_used st + int u,
              input_tokens_sent := count_input_tokens env (messages st),
              messages := messages st @ [\<lparr>role = Assistant, content = Reply c\<rparr>],
              files_shown := files_shown st \<union> set []\<rparr>)"
    using assms(5-10)
    by (simp add: call_model_def handle_response_def handle_payload_def Let_def
          chosen_response_format_def)
  have "\<exists>st'. turn env l s loc mt st = Stop (Raised (RuntimeError ''Invalid response'')) st'"
  proof (cases mt)
    case None
    with assms(3) call show ?thesis by (simp add: turn_without_ceiling)
  next
    case (Some c')
    with assms(3,4)
    have "0 < c' - completion_tokens_used st - count_input_tokens env (messages st)" by simp
    from turn_issues_call [OF this, of l s loc] call Some assms(3) show ?thesis by simp
  qed
  then obtain st' where "turn env l s loc mt st = Stop (Raised (RuntimeError ''Invalid response'')) st'"
    by blast
  from check_proof_at_turn [OF assms(1,2) this]
  have r: "fst (check_proof env l s loc mt) = Raised (RuntimeError ''Invalid response'')"
    by simp
  show ?thesis
  proof (intro conjI impI)
    show "fst (check_proof env l s loc mt) = Raised (RuntimeError ''Invalid response'')"
      by (rule r)
  next
    assume "s = svc (length (ret rs)) \<and> mt = next_max_tokens l (tokens_used rs)"
    with r show "check_proofs_loop env l svc (loc # locs) rs =
              (Some (RuntimeError ''Invalid response''),
               rs\<lparr>ceilings := ceilings rs @ [next_max_tokens l (tokens_used rs)]\<rparr>)"
      by (simp add: check_proofs_loop_abort)
  qed
qed

theorem empty_file_request_is_fatal_witness:
  "fst (check_proof demo_env demo_linter request_service demo_loc (Some 1000)) =
     Raised (RuntimeError ''Invalid response'') \<and>
   check_proofs_loop demo_env demo_linter (\<lambda>k. request_service)
       (demo_loc # [\<lparr>rel_path = ''b.py'', line_num = 7\<rparr>]) initial_run =
     (Some (RuntimeError ''Invalid response''),
      \<lparr>ret = [], tokens_used = 0, ceilings = [Some 1000], costs = []\<rparr>)"
proof -
  have a1: "state_after_turns demo_env demo_linter request_service demo_loc (Some 1000) 1
              (initial_conv demo_linter demo_loc) = Some demo_state1"
    by (rule demo_first_turn) simp
  have a2: "1 < nat (max_messages demo_linter)"
    by (simp add: demo_linter_def)
  have a3: "Some 360 = map_option (\<lambda>c. c - completion_tokens_used demo_state1
              - count_input_tokens demo_env (messages demo_state1)) (Some 1000)"
    by (simp add: demo_state1_def count_input_tokens_def demo_env_def MESSAGE_ENVELOPE_TOKENS_def)
  have a4: "\<forall>r. Some (360 :: int) = Some r \<longrightarrow> 0 < r"
    by simp
  have a5: "request_service (calls demo_state1)
              \<lparr>req_max_completion_tokens = Some 360, req_messages = messages demo_state1,
                req_response_format = chosen_response_format demo_linter\<rparr> =
            Completion \<lparr>usage = Some 20, resp_content = Some ''files'',
              parsed = Some (DataFilesRequested
                (FilesRequested [''b.py'', ''missing.py'', ''b.py'']))\<rparr>"
    by (simp add: request_service_def files_reply_def demo_state1_def)
  have a10: "resolve_files_requested demo_env (set (rel_paths demo_linter))
               (files_requested (FilesRequested [''b.py'', ''missing.py'', ''b.py'']))
               (files_shown demo_state1) = []"
    by (simp add: resolve_files_requested_def demo_env_def demo_linter_def demo_state1_def)
  have m: "next_max_tokens demo_linter (tokens_used (initial_run :: string run)) = Some 1000"
    by (simp add: next_max_tokens_def demo_linter_def initial_run_def MAX_CONTEXT_LENGTH_def)
  from empty_file_request_is_fatal [of demo_env demo_linter request_service demo_loc "Some 1000" 1
      demo_state1 "Some 360" _ 20 "''files''" _ "\<lambda>k. request_service" initial_run
      "[\<lparr>rel_path = ''b.py'', line_num = 7\<rparr>]", OF a1 a2 a3 a4 a5 _ _ _ _ a10]
  show ?thesis
    by (simp add: m) (simp add: demo_linter_def initial_run_def)
qed

section \<open>What a conversation is charged\<close>

lemma count_input_tokens_nonneg: "0 \<le> count_input_tokens env ms"
  by (induction ms) (auto simp: count_input_tokens_def MESSAGE_ENVELOPE_TOKENS_def)

lemma call_model_rejected:
  assumes "svc (calls st) \<lparr>req_max_completion_tokens = cap, req_messages = messages st,
                           req_response_format = chosen_response_format l\<rparr> = BadRequestError txt \<or>
           svc (calls st) \<lparr>req_max_completion_tokens = cap, req_messages = messages st,
                           req_response_format = chosen_response_format l\<rparr> = LengthFinishReasonError txt"
  shows "call_model env l svc loc mt cap st =
           Stop (Returned (failure_result loc txt) (or_default mt MAX_CONTEXT_LENGTH))
                (st\<lparr>calls := Suc (calls st)\<rparr>)"
  using assms by (auto simp: call_model_def Let_def)

lemma rejected_call_cost:
  assumes "state_after_turns env l s loc mt k (initial_conv l loc) = Some st"
    and "k < nat (max_messages l)"
    and "cap = map_option (\<lambda>c. c - completion_tokens_used st
                                 - count_input_tokens env (messages st)) mt"
    and "\<forall>r. cap = Some r \<longrightarrow> 0 < r"
    and "s (calls st) \<lparr>req_max_completion_tokens = cap, req_messages = messages st,
                       req_response_format = chosen_response_format l\<rparr> = BadRequestError txt \<or>
         s (calls st) \<lparr>req_max_completion_tokens = cap, req_messages = messages st,
                       req_response_format = chosen_response_format l\<rparr> = LengthFinishReasonError txt"
  shows "fst (check_proof env l s loc mt) =
           Returned (failure_result loc txt)
             (case mt of Some c \<Rightarrow> c | None \<Rightarrow> MAX_CONTEXT_LENGTH) \<and>
         (s = svc (length (ret rs)) \<and> mt = next_max_tokens l (tokens_used rs) \<longrightarrow>
            check_proofs_loop env l svc (loc # locs) rs =
              check_proofs_loop env l svc locs
                (rs\<lparr>ceilings := ceilings rs @ [mt],
                    ret := ret rs @ [failure_result loc txt],
                    tokens_used := tokens_used rs +
                      (case mt of Some c \<Rightarrow> c | None \<Rightarrow> MAX_CONTEXT_LENGTH),
                    costs := costs rs @
                      [case mt of Some c \<Rightarrow> c | None \<Rightarrow> MAX_CONTEXT_LENGTH]\<rparr>))"
proof -
  let ?st = "st\<lparr>input_tokens_in_messages := count_input_tokens env (messages st),
                 turns := Suc (turns st)\<rparr>"
  let ?cost = "case mt of Some c \<Rightarrow> c | None \<Rightarrow> MAX_CONTEXT_LENGTH"
  from state_after_turns_counts [OF assms(1)]
  have used: "0 \<le> completion_tokens_used st" by (simp add: initial_conv_def)
  have call: "call_model env l s loc mt cap ?st =
      Stop (Returned (failure_result loc txt) (or_default mt MAX_CONTEXT_LENGTH))
        (?st\<lparr>calls := Suc (calls ?st)\<rparr>)"
    by (rule call_model_rejected) (use assms(5) in simp)
  have "\<exists>st'. turn env l s loc mt st = Stop (Returned (failure_result loc txt) ?cost) st'"
  proof (cases mt)
    case None
    with assms(3) call show ?thesis by (simp add: turn_without_ceiling or_default_def)
  next
    case (Some c')
    with assms(3,4)
    have pos: "0 < c' - completion_tokens_used st - count_input_tokens env (messages st)" by simp
    with used count_input_tokens_nonneg [of env "messages st"] have "c' \<noteq> 0" by arith
    with turn_issues_call [OF pos, of l s loc] call Some assms(3) show ?thesis
      by (simp add: or_default_def)
  qed
  then obtain st' where "turn env l s loc mt st = Stop (Returned (failure_result loc txt) ?cost) st'"
    by blast
  from check_proof_at_turn [OF assms(1,2) this]
  have r: "fst (check_proof env l s loc mt) = Returned (failure_result loc txt) ?cost"
    by simp
  show ?thesis
  proof (intro conjI impI)
    show "fst (check_proof env l s loc mt) = Returned (failure_result loc txt) ?cost"
      by (rule r)
  next
    assume a: "s = svc (length (ret rs)) \<and> mt = next_max_tokens l (tokens_used rs)"
    with r have "fst (check_proof env l (svc (length (ret rs))) loc
                   (next_max_tokens l (tokens_used rs))) =
        Returned (failure_result loc txt)
          (case next_max_tokens l (tokens_used rs) of Some c \<Rightarrow> c | None \<Rightarrow> MAX_CONTEXT_LENGTH)"
      by simp
    from check_proofs_loop_charge [of env l svc rs loc _ _ locs, OF this] a
    show "check_proofs_loop env l svc (loc # locs) rs =
              check_proofs_loop env l svc locs
                (rs\<lparr>ceilings := ceilings rs @ [mt],
                    ret := ret rs @ [failure_result loc txt],
                    tokens_used := tokens_used rs + ?cost,
                    costs := costs rs @ [?cost]\<rparr>)"
      by simp
  qed
qed

text \<open>
  Claim C8. Take a conversation whose first \<open>k\<close> turns continued and left the state
  \<open>st\<close>, with a turn still allowed and the budget allowing a call. If the service
  rejects the call (\<^verbatim>\<open>BadRequestError\<close>) or cuts the answer for length
  (\<^verbatim>\<open>LengthFinishReasonError\<close>), the conversation ends with a result that holds
  \<^verbatim>\<open>Failure\<close> with the text of the error, and its cost is the ceiling when there is one and
  \<open>MAX_CONTEXT_LENGTH\<close> otherwise. In a run, that cost is what is added to the tokens
  used before the remaining properties are checked.
\<close>

theorem rejected_call_charges_ceiling:
  assumes "state_after_turns env l s loc mt k (initial_conv l loc) = Some st"
    and "k < nat (max_messages l)"
    and "cap = map_option (\<lambda>c. c - completion_tokens_used st
                                 - count_input_tokens env (messages st)) mt"
    and "\<forall>r. cap = Some r \<longrightarrow> 0 < r"
    and "s (calls st) \<lparr>req_max_completion_tokens = cap, req_messages = messages st,
                       req_response_format = chosen_response_format l\<rparr> = BadRequestError txt \<or>
         s (calls st) \<lparr>req_max_completion_tokens = cap, req_messages = messages st,
                       req_response_format = chosen_response_format l\<rparr> = LengthFinishReasonError txt"
  shows "fst (check_proof env l s loc mt) =
           Returned \<lparr>property_location = loc,
                     correctness_explanation = OutcomeFailure (Failure txt)\<rparr>
             (case mt of Some c \<Rightarrow> c | None \<Rightarrow> MAX_CONTEXT_LENGTH) \<and>
         MAX_CONTEXT_LENGTH = 100000 \<and>
         (s = svc (length (ret rs)) \<and> mt = next_max_tokens l (tokens_used rs) \<longrightarrow>
            check_proofs_loop env l svc (loc # locs) rs =
              check_proofs_loop env l svc locs
                (rs\<lparr>ceilings := ceilings rs @ [mt],
                    ret := ret rs @
                      [\<lparr>property_location = loc,
                        correctness_explanation = OutcomeFailure (Failure txt)\<rparr>],
                    tokens_used := tokens_used rs +
                      (case mt of Some c \<Rightarrow> c | None \<Rightarrow> MAX_CONTEXT_LENGTH),
                    costs := costs rs @
                      [case mt of Some c \<Rightarrow> c | None \<Rightarrow> MAX_CONTEXT_LENGTH]\<rparr>))"
  using rejected_call_cost [OF assms, of svc rs locs]
  unfolding failure_result_def by (simp add: MAX_CONTEXT_LENGTH_def)

lemma demo_rejecting_first_turn:
  "310 < c \<Longrightarrow>
   state_after_turns demo_env demo_linter rejecting_service demo_loc (Some c) 1
     (initial_conv demo_linter demo_loc) = Some demo_state1"
  by (simp add: demo_linter_def demo_env_def rejecting_service_def files_reply_def demo_state1_def
        initial_conv_def turn_def call_model_def handle_response_def build_initial_message_def
        build_subsequent_message_def resolve_files_requested_def MAX_FILES_REQUESTED_def
        handle_payload_def count_input_tokens_def MAX_CONTEXT_LENGTH_def
        MESSAGE_ENVELOPE_TOKENS_def chosen_response_format_def eval_nat_numeral Let_def)

lemma demo_rejecting_first_turn_unlimited:
  "state_after_turns demo_env browsing_linter rejecting_service demo_loc None 1
     (initial_conv browsing_linter demo_loc) = Some demo_state1"
  by (simp add: browsing_linter_def demo_linter_def demo_env_def rejecting_service_def
        files_reply_def demo_state1_def
        initial_conv_def turn_def call_model_def handle_response_def build_initial_message_def
        build_subsequent_message_def resolve_files_requested_def MAX_FILES_REQUESTED_def
        handle_payload_def count_input_tokens_def MAX_CONTEXT_LENGTH_def
        MESSAGE_ENVELOPE_TOKENS_def chosen_response_format_def eval_nat_numeral Let_def)

theorem rejected_call_charges_ceiling_witness:
  "fst (check_proof demo_env demo_linter rejecting_service demo_loc (Some 1000)) =
     Returned \<lparr>property_location = \<lparr>rel_path = ''a.py'', line_num = 3\<rparr>,
               correctness_explanation =
                 OutcomeFailure (Failure ''context length exceeded'')\<rparr> 1000 \<and>
   check_proofs_loop demo_env demo_linter (\<lambda>k. rejecting_service) [demo_loc] initial_run =
     (None, \<lparr>ret = [\<lparr>property_location = \<lparr>rel_path = ''a.py'', line_num = 3\<rparr>,
                     correctness_explanation =
                       OutcomeFailure (Failure ''context length exceeded'')\<rparr>],
             tokens_used = 1000, ceilings = [Some 1000], costs = [1000]\<rparr>) \<and>
   fst (check_proof demo_env browsing_linter rejecting_service demo_loc None) =
     Returned \<lparr>property_location = \<lparr>rel_path = ''a.py'', line_num = 3\<rparr>,
               correctness_explanation =
                 OutcomeFailure (Failure ''context length exceeded'')\<rparr> 100000"
proof -
  have a1: "state_after_turns demo_env demo_linter rejecting_service demo_loc (Some 1000) 1
              (initial_conv demo_linter demo_loc) = Some demo_state1"
    by (rule demo_rejecting_first_turn) simp
  have a2: "1 < nat (max_messages demo_linter)"
    by (simp add: demo_linter_def)
  have a3: "Some 360 = map_option (\<lambda>c. c - completion_tokens_used demo_state1
              - count_input_tokens demo_env (messages demo_state1)) (Some 1000)"
    by (simp add: demo_state1_def count_input_tokens_def demo_env_def MESSAGE_ENVELOPE_TOKENS_def)
  have a4: "\<forall>r. Some (360 :: int) = Some r \<longrightarrow> 0 < r"
    by simp
  have a5: "rejecting_service (calls demo_state1)
              \<lparr>req_max_completion_tokens = Some 360, req_messages = messages demo_state1,
                req_response_format = chosen_response_format demo_linter\<rparr> =
              BadRequestError ''context length exceeded'' \<or>
            rejecting_service (calls demo_state1)
              \<lparr>req_max_completion_tokens = Some 360, req_messages = messages demo_state1,
                req_response_format = chosen_response_format demo_linter\<rparr> =
              LengthFinishReasonError ''context length exceeded''"
    by (simp add: rejecting_service_def demo_state1_def)
  have m: "next_max_tokens demo_linter (tokens_used (initial_run :: string run)) = Some 1000"
    by (simp add: next_max_tokens_def demo_linter_def initial_run_def MAX_CONTEXT_LENGTH_def)
  from rejected_call_charges_ceiling [of demo_env demo_linter rejecting_service demo_loc
      "Some 1000" 1 demo_state1 "Some 360" "''context length exceeded''"
      "\<lambda>k. rejecting_service" initial_run "[]", OF a1 a2 a3 a4 a5]
  have limited: "fst (check_proof demo_env demo_linter rejecting_service demo_loc (Some 1000)) =
     Returned \<lparr>property_location = \<lparr>rel_path = ''a.py'', line_num = 3\<rparr>,
               correctness_explanation =
                 OutcomeFailure (Failure ''context length exceeded'')\<rparr> 1000 \<and>
   check_proofs_loop demo_env demo_linter (\<lambda>k. rejecting_service) [demo_loc] initial_run =
     (None, \<lparr>ret = [\<lparr>property_location = \<lparr>rel_path = ''a.py'', line_num = 3\<rparr>,
                     correctness_explanation =
                       OutcomeFailure (Failure ''context length exceeded'')\<rparr>],
             tokens_used = 1000, ceilings = [Some 1000], costs = [1000]\<rparr>)"
    by (simp add: m demo_loc_def) (simp add: initial_run_def)
  have b2: "1 < nat (max_messages browsing_linter)"
    by (simp add: browsing_linter_def)
  have b3: "None = map_option (\<lambda>c. c - completion_tokens_used demo_state1
              - count_input_tokens demo_env (messages demo_state1)) None"
    by simp
  have b4: "\<forall>r. (None :: int option) = Some r \<longrightarrow> 0 < r"
    by simp
  have b5: "rejecting_service (calls demo_state1)
              \<lparr>req_max_completion_tokens = None, req_messages = messages demo_state1,
                req_response_format = chosen_response_format browsing_linter\<rparr> =
              BadRequestError ''context length exceeded'' \<or>
            rejecting_service (calls demo_state1)
              \<lparr>req_max_completion_tokens = None, req_messages = messages demo_state1,
                req_response_format = chosen_response_format browsing_linter\<rparr> =
              LengthFinishReasonError ''context length exceeded''"
    by (simp add: rejecting_service_def demo_state1_def)
  from rejected_call_charges_ceiling [of demo_env browsing_linter rejecting_service demo_loc
      None 1 demo_state1 None "''context length exceeded''"
      "\<lambda>k. rejecting_service" initial_run "[]",
      OF demo_rejecting_first_turn_unlimited b2 b3 b4 b5, THEN conjunct1]
  have unlimited: "fst (check_proof demo_env browsing_linter rejecting_service demo_loc None) =
     Returned \<lparr>property_location = \<lparr>rel_path = ''a.py'', line_num = 3\<rparr>,
               correctness_explanation =
                 OutcomeFailure (Failure ''context length exceeded'')\<rparr> 100000"
    by (simp add: demo_loc_def MAX_CONTEXT_LENGTH_def)
  from limited unlimited show ?thesis by (elim conjE, intro conjI) assumption+
qed

section \<open>A conversation that ends before any call\<close>

lemma turn_Stop_no_call:
  assumes "turn env l svc loc mt st = Stop out st'" and "calls st' = calls st"
  shows "mt \<noteq> None \<and>
         out = Returned (failure_result loc ''Token limit reached'')
                 (completion_tokens_used st + input_tokens_sent st)"
proof (cases mt)
  case None
  with assms(1) have "call_model env l svc loc None None
      (st\<lparr>input_tokens_in_messages := count_input_tokens env (messages st),
          turns := Suc (turns st)\<rparr>) = Stop out st'"
    by (simp add: turn_without_ceiling)
  from call_model_Stop [OF this] assms(2) show ?thesis by simp
next
  case (Some c)
  show ?thesis
  proof (cases "c - completion_tokens_used st - count_input_tokens env (messages st) \<le> 0")
    case True
    from turn_token_limit [OF True, of l svc loc] assms(1) Some show ?thesis by simp
  next
    case False
    then have "0 < c - completion_tokens_used st - count_input_tokens env (messages st)" by simp
    from turn_issues_call [OF this, of l svc loc] assms(1) Some
    have "call_model env l svc loc (Some c)
             (Some (c - completion_tokens_used st - count_input_tokens env (messages st)))
             (st\<lparr>input_tokens_in_messages := count_input_tokens env (messages st),
                 turns := Suc (turns st)\<rparr>) = Stop out st'"
      by simp
    from call_model_Stop [OF this] assms(2) show ?thesis by simp
  qed
qed

lemma check_proof_loop_calls_mono:
  "calls st \<le> calls (snd (check_proof_loop env l svc loc mt n st))"
proof (induction n arbitrary: st)
  case 0
  then show ?case by simp
next
  case (Suc n)
  show ?case
  proof (cases "turn env l svc loc mt st")
    case (Continue st1)
    from turn_Continue [OF Continue] have "calls st1 = Suc (calls st)" by auto
    with Suc.IH [of st1] Continue show ?thesis by simp
  next
    case (Stop out st1)
    have "calls st \<le> calls st1"
      using Stop
      by (auto simp: turn_def Let_def split: option.splits if_splits dest!: call_model_Stop)
    with Stop show ?thesis by simp
  qed
qed

lemma check_proof_no_call:
  assumes "fst (check_proof env l svc loc mt) = Returned pcr cost"
    and "calls (snd (check_proof env l svc loc mt)) = 0"
  shows "cost = 0 \<and> pcr = failure_result loc ''Token limit reached'' \<and> mt \<noteq> None"
proof (cases "nat (max_messages l)")
  case 0
  with assms(1) show ?thesis by (simp add: check_proof_def)
next
  case (Suc n)
  show ?thesis
  proof (cases "turn env l svc loc mt (initial_conv l loc)")
    case (Continue st1)
    from turn_Continue [OF Continue] have "calls st1 = Suc (calls (initial_conv l loc))" by auto
    with check_proof_loop_calls_mono [of st1 env l svc loc mt n] Continue Suc assms(2)
    show ?thesis by (simp add: check_proof_def)
  next
    case (Stop out st1)
    with Suc have r: "check_proof env l svc loc mt = (out, st1)"
      by (simp add: check_proof_def)
    with assms(2) have "calls st1 = calls (initial_conv l loc)"
      by (simp add: initial_conv_def)
    from turn_Stop_no_call [OF Stop this] r assms(1) show ?thesis
      by (simp add: initial_conv_def)
  qed
qed

lemma next_max_tokens_exhausted:
  assumes "max_tokens_total l = Some t" and "t \<le> used"
  shows "\<exists>c. next_max_tokens l used = Some c \<and> c \<le> 0"
  using assms by (auto simp: next_max_tokens_def min_def)

lemma check_proof_exhausted:
  assumes "c \<le> 0" and "0 < max_messages l"
  shows "fst (check_proof env l svc loc (Some c)) =
           Returned (failure_result loc ''Token limit reached'') 0 \<and>
         calls (snd (check_proof env l svc loc (Some c))) = 0"
proof -
  have "c \<le> int (enc_len env (render env (build_initial_message l loc))) + MESSAGE_ENVELOPE_TOKENS"
    using assms(1) by (simp add: MESSAGE_ENVELOPE_TOKENS_def)
  from first_turn_limit [OF assms(2) this, of svc] show ?thesis
    by (simp add: initial_conv_def)
qed

lemma check_proof_no_turn:
  assumes "max_messages l \<le> 0"
  shows "fst (check_proof env l svc loc mt) = Raised (TimeoutError ''No result after max messages'')"
  using assms by (simp add: check_proof_def)

lemma check_proofs_loop_exhausted:
  assumes "max_tokens_total l = Some t" and "t \<le> tokens_used rs"
    and "check_proofs_loop env l svc locs rs = (err, rs')"
  shows "tokens_used rs' = tokens_used rs \<and>
         (\<exists>n \<le> length locs.
            costs rs' = costs rs @ replicate n 0 \<and>
            ret rs' = ret rs @ map (\<lambda>loc. failure_result loc ''Token limit reached'') (take n locs))"
  using assms(2,3)
proof (induction locs arbitrary: rs)
  case Nil
  then show ?case by simp
next
  case (Cons loc locs)
  from next_max_tokens_exhausted [OF assms(1) Cons.prems(1)]
  obtain c where c: "next_max_tokens l (tokens_used rs) = Some c" "c \<le> 0" by blast
  show ?case
  proof (cases "0 < max_messages l")
    case False
    then have "fst (check_proof env l (svc (length (ret rs))) loc
                 (next_max_tokens l (tokens_used rs))) =
        Raised (TimeoutError ''No result after max messages'')"
      by (simp add: check_proof_no_turn)
    from check_proofs_loop_abort [of env l svc rs loc _ locs, OF this] Cons.prems(2)
    have "rs' = rs\<lparr>ceilings := ceilings rs @ [next_max_tokens l (tokens_used rs)]\<rparr>" by simp
    then have "tokens_used rs' = tokens_used rs \<and> costs rs' = costs rs @ replicate 0 0 \<and>
        ret rs' = ret rs @ map (\<lambda>loc. failure_result loc ''Token limit reached'') (take 0 (loc # locs))"
      by simp
    then show ?thesis by blast
  next
    case True
    let ?rs = "rs\<lparr>ceilings := ceilings rs @ [next_max_tokens l (tokens_used rs)],
                 ret := ret rs @ [failure_result loc ''Token limit reached''],
                 tokens_used := tokens_used rs + 0,
                 costs := costs rs @ [0]\<rparr>"
    from check_proof_exhausted [OF c(2) True, of env "svc (length (ret rs))" loc] c(1)
    have "fst (check_proof env l (svc (length (ret rs))) loc
                 (next_max_tokens l (tokens_used rs))) =
        Returned (failure_result loc ''Token limit reached'') 0"
      by simp
    from check_proofs_loop_charge [of env l svc rs loc _ _ locs, OF this] Cons.prems(2)
    have run: "check_proofs_loop env l svc locs ?rs = (err, rs')" by simp
    have "t \<le> tokens_used ?rs" using Cons.prems(1) by simp
    from Cons.IH [OF this run]
    obtain n where n: "n \<le> length locs" "tokens_used rs' = tokens_used rs"
      "costs rs' = costs rs @ 0 # replicate n 0"
      "ret rs' = ret rs @ failure_result loc ''Token limit reached'' #
         map (\<lambda>loc. failure_result loc ''Token limit reached'') (take n locs)"
      by auto
    then have "Suc n \<le> length (loc # locs) \<and> costs rs' = costs rs @ replicate (Suc n) 0 \<and>
        ret rs' = ret rs @ map (\<lambda>loc. failure_result loc ''Token limit reached'')
                             (take (Suc n) (loc # locs))"
      by simp
    with n(2) show ?thesis by blast
  qed
qed

text \<open>
  Claim C10. A conversation that returns a result without having issued any call
  returns the failure "Token limit reached" with cost 0, and it had a ceiling. Once the
  tokens used have reached \<open>max_tokens_total\<close>, every further conversation (when at
  least one turn is allowed) is of this kind, and whatever the rest of the run does, the
  tokens used stay the same: the costs it appends are all 0 and the results it appends
  are all that failure.
\<close>

theorem exhausted_budget_costs_nothing:
  "(fst (check_proof env l s loc mt) = Returned pcr cost \<and>
    calls (snd (check_proof env l s loc mt)) = 0 \<longrightarrow>
      cost = 0 \<and> pcr = failure_result loc ''Token limit reached'' \<and> mt \<noteq> None) \<and>
   (max_tokens_total l = Some t \<and> t \<le> used \<and> 0 < max_messages l \<longrightarrow>
      fst (check_proof env l s loc (next_max_tokens l used)) =
        Returned (failure_result loc ''Token limit reached'') 0 \<and>
      calls (snd (check_proof env l s loc (next_max_tokens l used))) = 0) \<and>
   (max_tokens_total l = Some t \<and> t \<le> tokens_used rs \<and>
    check_proofs_loop env l svc locs rs = (err, rs') \<longrightarrow>
      tokens_used rs' = tokens_used rs \<and>
      (\<exists>n \<le> length locs.
         costs rs' = costs rs @ replicate n 0 \<and>
         ret rs' = ret rs @ map (\<lambda>loc. failure_result loc ''Token limit reached'') (take n locs)))"
proof (intro conjI impI)
  assume a: "fst (check_proof env l s loc mt) = Returned pcr cost \<and>
    calls (snd (check_proof env l s loc mt)) = 0"
  from check_proof_no_call [of env l s loc mt pcr cost] a
  show "cost = 0" and "pcr = failure_result loc ''Token limit reached''" and "mt \<noteq> None"
    by simp_all
next
  assume a: "max_tokens_total l = Some t \<and> t \<le> used \<and> 0 < max_messages l"
  then obtain c where c: "next_max_tokens l used = Some c" "c \<le> 0"
    using next_max_tokens_exhausted [of l t used] by blast
  from a have m: "0 < max_messages l" by simp
  from check_proof_exhausted [OF c(2) m, of env s loc] c(1)
  show "fst (check_proof env l s loc (next_max_tokens l used)) =
        Returned (failure_result loc ''Token limit reached'') 0"
    and "calls (snd (check_proof env l s loc (next_max_tokens l used))) = 0"
    by simp_all
next
  assume a: "max_tokens_total l = Some t \<and> t \<le> tokens_used rs \<and>
    check_proofs_loop env l svc locs rs = (err, rs')"
  from a have a1: "max_tokens_total l = Some t" and a2: "t \<le> tokens_used rs"
    and a3: "check_proofs_loop env l svc locs rs = (err, rs')" by simp_all
  from check_proofs_loop_exhausted [OF a1 a2 a3]
  show "tokens_used rs' = tokens_used rs"
    and "\<exists>n \<le> length locs.
         costs rs' = costs rs @ replicate n 0 \<and>
         ret rs' = ret rs @ map (\<lambda>loc. failure_result loc ''Token limit reached'') (take n locs)"
    by simp_all
qed

theorem exhausted_budget_costs_nothing_witness:
  "fst (check_proof demo_env demo_linter rejecting_service demo_loc2 (Some 0)) =
     Returned (failure_result demo_loc2 ''Token limit reached'') 0 \<and>
   calls (snd (check_proof demo_env demo_linter rejecting_service demo_loc2 (Some 0))) = 0 \<and>
   tokens_used (snd (check_proofs_loop demo_env demo_linter (\<lambda>k. rejecting_service)
                       [demo_loc2] charged_run)) = 1000"
proof -
  have t: "max_tokens_total demo_linter = Some 1000"
    by (simp add: demo_linter_def)
  have m: "0 < max_messages demo_linter"
    by (simp add: demo_linter_def)
  have c: "next_max_tokens demo_linter 1000 = Some 0"
    by (simp add: next_max_tokens_def demo_linter_def MAX_CONTEXT_LENGTH_def)
  have u: "(1000 :: int) \<le> tokens_used charged_run"
    by (simp add: charged_run_def)
  have p: "check_proofs_loop demo_env demo_linter (\<lambda>k. rejecting_service) [demo_loc2] charged_run =
      (fst (check_proofs_loop demo_env demo_linter (\<lambda>k. rejecting_service) [demo_loc2] charged_run),
       snd (check_proofs_loop demo_env demo_linter (\<lambda>k. rejecting_service) [demo_loc2] charged_run))"
    by simp
  note e = exhausted_budget_costs_nothing [of demo_env demo_linter rejecting_service demo_loc2
      "Some 0" "failure_result demo_loc2 ''Token limit reached''" 0 1000 1000 charged_run
      "\<lambda>k. rejecting_service" "[demo_loc2]"
      "fst (check_proofs_loop demo_env demo_linter (\<lambda>k. rejecting_service) [demo_loc2] charged_run)"
      "snd (check_proofs_loop demo_env demo_linter (\<lambda>k. rejecting_service) [demo_loc2] charged_run)"]
  have le: "(1000 :: int) \<le> 1000" by simp
  from e [THEN conjunct2, THEN conjunct1, THEN mp, OF conjI [OF t conjI [OF le m]]]
  have second: "fst (check_proof demo_env demo_linter rejecting_service demo_loc2 (Some 0)) =
     Returned (failure_result demo_loc2 ''Token limit reached'') 0 \<and>
   calls (snd (check_proof demo_env demo_linter rejecting_service demo_loc2 (Some 0))) = 0"
    by (simp add: c)
  from e [THEN conjunct1, THEN mp, OF second]
  have first: "(0 :: int) = 0 \<and> (Some (0 :: int)) \<noteq> None"
    by simp
  from e [THEN conjunct2, THEN conjunct2, THEN mp, OF conjI [OF t conjI [OF u p]]]
  have third: "tokens_used (snd (check_proofs_loop demo_env demo_linter (\<lambda>k. rejecting_service)
                       [demo_loc2] charged_run)) = 1000"
    by (simp add: charged_run_def)
  from second third show ?thesis by simp
qed

section \<open>Full-disclosure mode\<close>

lemma full_disclosure_turn_stops:
  assumes "\<not> exclude_full_files l"
  shows "\<exists>out st'. turn env l svc loc mt st = Stop out st'"
proof (cases "turn env l svc loc mt st")
  case (Continue st1)
  from turn_Continue [OF Continue]
  obtain fr where "admits (chosen_response_format l) (DataFilesRequested fr)" by blast
  with assms show ?thesis by (simp add: chosen_response_format_def)
next
  case (Stop out st1)
  then show ?thesis by blast
qed

lemma full_disclosure_verdict:
  assumes "\<not> exclude_full_files l"
    and "usage resp = Some u" and "resp_content resp = Some c" and "parsed resp = Some d"
    and "admits (chosen_response_format l) d"
  shows "\<exists>ce cost st'. handle_response env l loc resp st =
           Stop (Returned \<lparr>property_location = loc,
                           correctness_explanation = OutcomeCorrectness ce\<rparr> cost) st'"
proof (cases d)
  case (DataFilesRequested fr)
  with assms(1,5) show ?thesis by (simp add: chosen_response_format_def)
next
  case (DataCorrectnessExplanation ce)
  with assms(2-4) show ?thesis
    by (simp add: handle_response_def handle_payload_def Let_def)
qed

text \<open>
  Claim C9. When the linter is in full-disclosure mode, no turn continues the
  conversation, so \<open>check_proof\<close> issues at most one call; the only user message the
  conversation ever holds is the initial one, which means that no follow-up message is
  built; and a completion that carries usage, content and a payload its response class
  admits ends the conversation with a verdict.
\<close>

theorem full_disclosure_single_call:
  assumes "\<not> exclude_full_files l"
  shows "(\<forall>st. \<exists>out st'. turn env l svc loc mt st = Stop out st') \<and>
         calls (snd (check_proof env l svc loc mt)) \<le> 1 \<and>
         (\<forall>m \<in> set (messages (snd (check_proof env l svc loc mt))).
            role m = User \<longrightarrow> content m = InitialFull (rel_paths l) loc) \<and>
         (\<forall>st resp u c d.
            usage resp = Some u \<and> resp_content resp = Some c \<and> parsed resp = Some d \<and>
            admits (chosen_response_format l) d \<longrightarrow>
            (\<exists>ce cost st'. handle_response env l loc resp st =
               Stop (Returned \<lparr>property_location = loc,
                               correctness_explanation = OutcomeCorrectness ce\<rparr> cost) st'))"
proof (intro conjI allI impI ballI)
  fix st
  show "\<exists>out st'. turn env l svc loc mt st = Stop out st'"
    by (rule full_disclosure_turn_stops [OF assms])
next
  show "calls (snd (check_proof env l svc loc mt)) \<le> 1"
  proof (cases "nat (max_messages l)")
    case 0
    then show ?thesis by (simp add: check_proof_def initial_conv_def)
  next
    case (Suc n)
    from full_disclosure_turn_stops [OF assms, of env svc loc mt "initial_conv l loc"]
    obtain out st' where s: "turn env l svc loc mt (initial_conv l loc) = Stop out st'" by blast
    from turn_Stop [OF s] have "calls st' \<le> 1" by (simp add: initial_conv_def)
    with s Suc show ?thesis by (simp add: check_proof_def)
  qed
next
  fix m
  assume m: "m \<in> set (messages (snd (check_proof env l svc loc mt)))" and u: "role m = User"
  have init: "messages (initial_conv l loc) =
      [\<lparr>role = User, content = InitialFull (rel_paths l) loc\<rparr>]"
    using assms by (simp add: initial_conv_def build_initial_message_def)
  show "content m = InitialFull (rel_paths l) loc"
  proof (cases "nat (max_messages l)")
    case 0
    with m init show ?thesis by (simp add: check_proof_def)
  next
    case (Suc n)
    from full_disclosure_turn_stops [OF assms, of env svc loc mt "initial_conv l loc"]
    obtain out st' where s: "turn env l svc loc mt (initial_conv l loc) = Stop out st'" by blast
    with Suc m have "m \<in> set (messages st')" by (simp add: check_proof_def)
    with turn_Stop [OF s] u have "m \<in> set (messages (initial_conv l loc))" by auto
    with init show ?thesis by simp
  qed
next
  fix st and resp :: completion and u c d
  assume "usage resp = Some u \<and> resp_content resp = Some c \<and> parsed resp = Some d \<and>
            admits (chosen_response_format l) d"
  then show "\<exists>ce cost st'. handle_response env l loc resp st =
               Stop (Returned \<lparr>property_location = loc,
                               correctness_explanation = OutcomeCorrectness ce\<rparr> cost) st'"
    using full_disclosure_verdict [OF assms, of resp u c d env loc st] by blast
qed

theorem full_disclosure_single_call_witness:
  "calls (snd (check_proof demo_env full_linter own_file_service demo_loc None)) \<le> 1 \<and>
   (\<exists>out st'. turn demo_env full_linter own_file_service demo_loc None
                 (initial_conv full_linter demo_loc) = Stop out st') \<and>
   fst (check_proof demo_env full_linter verdict_service demo_loc None) =
     Returned \<lparr>property_location = demo_loc,
               correctness_explanation =
                 OutcomeCorrectness (CorrectnessExplanation Correct ''fine'')\<rparr> 360"
proof -
  have a: "\<not> exclude_full_files full_linter"
    by (simp add: full_linter_def)
  note f = full_disclosure_single_call [OF a, of demo_env own_file_service demo_loc None]
  from f [THEN conjunct1, rule_format, of "initial_conv full_linter demo_loc"]
  have first: "\<exists>out st'. turn demo_env full_linter own_file_service demo_loc None
                 (initial_conv full_linter demo_loc) = Stop out st'" .
  from f [THEN conjunct2, THEN conjunct1]
  have second: "calls (snd (check_proof demo_env full_linter own_file_service demo_loc None)) \<le> 1" .
  have third: "fst (check_proof demo_env full_linter verdict_service demo_loc None) =
     Returned \<lparr>property_location = demo_loc,
               correctness_explanation =
                 OutcomeCorrectness (CorrectnessExplanation Correct ''fine'')\<rparr> 360"
    by (simp add: full_linter_def demo_linter_def demo_env_def verdict_service_def
          verdict_reply_def check_proof_def initial_conv_def turn_def call_model_def
          handle_response_def handle_payload_def count_input_tokens_def
          MESSAGE_ENVELOPE_TOKENS_def chosen_response_format_def eval_nat_numeral Let_def)
  from first second third show ?thesis by simp
qed

section \<open>Disclosure of files\<close>

lemma sorted_take_below_rest:
  assumes "sorted xs" and "distinct xs" and "x \<in> set xs - set (take n xs)" and "y \<in> set (take n xs)"
  shows "y < x"
proof -
  have xs: "xs = take n xs @ drop n xs" by simp
  from assms(3) have "x \<in> set (drop n xs)"
    by (metis DiffD1 DiffD2 UnE set_append xs)
  moreover from assms(1) have "sorted (take n xs @ drop n xs)" by simp
  ultimately have "y \<le> x" using assms(4) by (auto simp only: sorted_append)
  moreover from assms(3,4) have "y \<noteq> x" by auto
  ultimately show ?thesis by simp
qed

lemma resolve_candidates:
  "(set known \<inter> path_of env ` set requested) - shown =
     set (filter (\<lambda>p. p \<notin> shown) (filter (\<lambda>p. p \<in> set known) (map (path_of env) requested)))"
  by auto

lemma resolve_files_requested_spec:
  "resolve_files_requested env (set known) requested shown = spec_resolve env known requested shown"
  unfolding resolve_files_requested_def spec_resolve_def resolve_candidates
  by (simp only: sorted_list_of_set_sort_remdups)

lemma resolve_files_requested_props:
  fixes env :: "'p::linorder env"
  defines "C \<equiv> \<lambda>known requested shown. (set known \<inter> path_of env ` set requested) - shown"
  shows "sorted (resolve_files_requested env (set known) requested shown)"
    and "distinct (resolve_files_requested env (set known) requested shown)"
    and "set (resolve_files_requested env (set known) requested shown) \<subseteq> C known requested shown"
    and "length (resolve_files_requested env (set known) requested shown) =
           min MAX_FILES_REQUESTED (card (C known requested shown))"
proof -
  have fin: "finite (C known requested shown)" by (simp add: C_def)
  show "sorted (resolve_files_requested env (set known) requested shown)"
    by (simp add: resolve_files_requested_def sorted_wrt_take)
  show "distinct (resolve_files_requested env (set known) requested shown)"
    by (simp add: resolve_files_requested_def)
  show "set (resolve_files_requested env (set known) requested shown) \<subseteq> C known requested shown"
    using set_take_subset [of MAX_FILES_REQUESTED "sorted_list_of_set (C known requested shown)"] fin
    by (simp add: resolve_files_requested_def C_def)
  show "length (resolve_files_requested env (set known) requested shown) =
           min MAX_FILES_REQUESTED (card (C known requested shown))"
    by (simp add: resolve_files_requested_def C_def min.commute)
qed

lemma resolve_files_requested_smallest:
  fixes env :: "'p::linorder env"
  assumes "x \<in> (set known \<inter> path_of env ` set requested) - shown
               - set (resolve_files_requested env (set known) requested shown)"
    and "y \<in> set (resolve_files_requested env (set known) requested shown)"
  shows "y < x"
proof -
  let ?C = "(set known \<inter> path_of env ` set requested) - shown"
  have fin: "finite ?C" by simp
  have "x \<in> set (sorted_list_of_set ?C) - set (take MAX_FILES_REQUESTED (sorted_list_of_set ?C))"
    using assms(1) fin by (simp add: resolve_files_requested_def)
  moreover have "y \<in> set (take MAX_FILES_REQUESTED (sorted_list_of_set ?C))"
    using assms(2) by (simp add: resolve_files_requested_def)
  ultimately show ?thesis
    by (rule sorted_take_below_rest [rotated 2]) simp_all
qed

lemma resolve_files_requested_all_new:
  fixes env :: "'p::linorder env"
  assumes "distinct (map (path_of env) requested)"
    and "path_of env ` set requested \<subseteq> set known - shown"
  shows "resolve_files_requested env (set known) requested shown =
           take MAX_FILES_REQUESTED (sort (map (path_of env) requested))"
proof -
  have "filter (\<lambda>p. p \<notin> shown) (filter (\<lambda>p. p \<in> set known) (map (path_of env) requested)) =
      map (path_of env) requested"
    using assms(2) by (auto simp: filter_id_conv)
  moreover from assms(1) have "remdups (map (path_of env) requested) = map (path_of env) requested"
    by (rule distinct_remdups_id)
  ultimately show ?thesis
    by (simp only: resolve_files_requested_spec spec_resolve_def)
qed

lemma handle_payload_files:
  assumes "resolve_files_requested env (set (rel_paths l)) requested (files_shown st) \<noteq> []"
  shows "handle_payload env l loc (DataFilesRequested (FilesRequested requested)) st =
           Continue (st\<lparr>files_shown := files_shown st \<union>
                          set (resolve_files_requested env (set (rel_paths l)) requested (files_shown st)),
                        messages := messages st @
                          [\<lparr>role = User, content = Subsequent
                             (resolve_files_requested env (set (rel_paths l)) requested (files_shown st))\<rparr>]\<rparr>)"
  using assms by (simp add: handle_payload_def Let_def build_subsequent_message_def)

text \<open>
  Claim C4. On a file request, the list of files shown next is what the specification
  describes: the requested paths that are known and not yet shown, without duplicates,
  in the order of paths, cut to \<open>MAX_FILES_REQUESTED = 5\<close>. Hence it is sorted, has no
  duplicates, holds only known, requested, unshown files, has the length of the
  candidate set or 5 if that is less, and every candidate left out is greater than every
  file chosen. It depends on the requested paths as a set only. When eight distinct
  known files are requested and none was shown, it is the first five of them in sorted
  order. When it is not empty, it is exactly what the next user message inlines and what
  is added to the files shown.
\<close>

theorem file_request_resolution:
  fixes env :: "'p::linorder env"
  shows
  "resolve_files_requested env (set (rel_paths l)) requested (files_shown st) =
     spec_resolve env (rel_paths l) requested (files_shown st) \<and>
   MAX_FILES_REQUESTED = 5 \<and>
   sorted (resolve_files_requested env (set (rel_paths l)) requested (files_shown st)) \<and>
   distinct (resolve_files_requested env (set (rel_paths l)) requested (files_shown st)) \<and>
   set (resolve_files_requested env (set (rel_paths l)) requested (files_shown st))
     \<subseteq> (set (rel_paths l) \<inter> path_of env ` set requested) - files_shown st \<and>
   length (resolve_files_requested env (set (rel_paths l)) requested (files_shown st)) =
     min 5 (card ((set (rel_paths l) \<inter> path_of env ` set requested) - files_shown st)) \<and>
   (\<forall>x \<in> (set (rel_paths l) \<inter> path_of env ` set requested) - files_shown st
            - set (resolve_files_requested env (set (rel_paths l)) requested (files_shown st)).
      \<forall>y \<in> set (resolve_files_requested env (set (rel_paths l)) requested (files_shown st)).
        y < x) \<and>
   (\<forall>requested'. set requested' = set requested \<longrightarrow>
      resolve_files_requested env (set (rel_paths l)) requested' (files_shown st) =
        resolve_files_requested env (set (rel_paths l)) requested (files_shown st)) \<and>
   (length requested = 8 \<and> distinct (map (path_of env) requested) \<and>
    path_of env ` set requested \<subseteq> set (rel_paths l) - files_shown st \<longrightarrow>
      resolve_files_requested env (set (rel_paths l)) requested (files_shown st) =
        take 5 (sort (map (path_of env) requested)) \<and>
      length (resolve_files_requested env (set (rel_paths l)) requested (files_shown st)) = 5) \<and>
   (resolve_files_requested env (set (rel_paths l)) requested (files_shown st) \<noteq> [] \<longrightarrow>
      handle_payload env l loc (DataFilesRequested (FilesRequested requested)) st =
        Continue (st\<lparr>files_shown := files_shown st \<union>
                       set (resolve_files_requested env (set (rel_paths l)) requested (files_shown st)),
                     messages := messages st @
                       [\<lparr>role = User, content = Subsequent
                          (resolve_files_requested env (set (rel_paths l)) requested
                             (files_shown st))\<rparr>]\<rparr>))"
  (is "?spec \<and> ?five \<and> ?sorted \<and> ?distinct \<and> ?subset \<and> ?length \<and> ?smallest \<and> ?determ \<and> ?eight \<and> ?shown")
proof -
  have five: ?five by (simp add: MAX_FILES_REQUESTED_def)
  have spec: ?spec by (rule resolve_files_requested_spec)
  have sorted: ?sorted by (rule resolve_files_requested_props)
  have distinct: ?distinct by (rule resolve_files_requested_props)
  have subset: ?subset by (rule resolve_files_requested_props)
  have length: ?length
    using resolve_files_requested_props(4) [of env "rel_paths l" requested "files_shown st"] five
    by simp
  have smallest: ?smallest
    using resolve_files_requested_smallest [of _ "rel_paths l" env requested "files_shown st"]
    by blast
  have determ: ?determ by (simp add: resolve_files_requested_def)
  have eight: ?eight
  proof (intro impI)
    assume a: "length requested = 8 \<and> distinct (map (path_of env) requested) \<and>
      path_of env ` set requested \<subseteq> set (rel_paths l) - files_shown st"
    then have d: "distinct (map (path_of env) requested)"
      and s: "path_of env ` set requested \<subseteq> set (rel_paths l) - files_shown st"
      and n: "length requested = 8" by simp_all
    from resolve_files_requested_all_new [OF d s] five
    have e: "resolve_files_requested env (set (rel_paths l)) requested (files_shown st) =
        take 5 (sort (map (path_of env) requested))" by simp
    moreover have "length (take 5 (sort (map (path_of env) requested))) = 5"
      using n by simp
    ultimately show "resolve_files_requested env (set (rel_paths l)) requested (files_shown st) =
        take 5 (sort (map (path_of env) requested)) \<and>
      length (resolve_files_requested env (set (rel_paths l)) requested (files_shown st)) = 5"
      by simp
  qed
  have shown: ?shown by (intro impI) (rule handle_payload_files)
  from spec five sorted distinct subset length smallest determ eight shown
  show ?thesis by (intro conjI)
qed

lemma wide_request_sorted:
  "take 5 (sort (map (path_of demo_env) wide_request)) = [''a'', ''b'', ''c'', ''d'', ''e'']"
  unfolding wide_request_def demo_env_def by code_simp

theorem file_request_resolution_witness:
  "resolve_files_requested demo_env (set (rel_paths wide_linter)) wide_request
     (files_shown (initial_conv wide_linter demo_loc)) = [''a'', ''b'', ''c'', ''d'', ''e''] \<and>
   resolve_files_requested demo_env (set (rel_paths wide_linter)) (rev wide_request)
     (files_shown (initial_conv wide_linter demo_loc)) = [''a'', ''b'', ''c'', ''d'', ''e''] \<and>
   handle_payload demo_env wide_linter demo_loc
       (DataFilesRequested (FilesRequested wide_request)) (initial_conv wide_linter demo_loc) =
     Continue ((initial_conv wide_linter demo_loc)
        \<lparr>files_shown := {''a'', ''b'', ''c'', ''d'', ''e''},
         messages := messages (initial_conv wide_linter demo_loc) @
           [\<lparr>role = User, content = Subsequent [''a'', ''b'', ''c'', ''d'', ''e'']\<rparr>]\<rparr>)"
proof -
  note f = file_request_resolution [of demo_env wide_linter wide_request
      "initial_conv wide_linter demo_loc" demo_loc]
  have h: "length wide_request = 8 \<and> distinct (map (path_of demo_env) wide_request) \<and>
      path_of demo_env ` set wide_request
        \<subseteq> set (rel_paths wide_linter) - files_shown (initial_conv wide_linter demo_loc)"
    by (simp add: wide_request_def demo_env_def wide_linter_def initial_conv_def)
  from f [THEN conjunct2, THEN conjunct2, THEN conjunct2, THEN conjunct2, THEN conjunct2,
      THEN conjunct2, THEN conjunct2, THEN conjunct2, THEN conjunct1, THEN mp, OF h]
  have r: "resolve_files_requested demo_env (set (rel_paths wide_linter)) wide_request
     (files_shown (initial_conv wide_linter demo_loc)) = [''a'', ''b'', ''c'', ''d'', ''e'']"
    by (simp only: wide_request_sorted)
  have s: "set (rev wide_request) = set wide_request" by simp
  from f [THEN conjunct2, THEN conjunct2, THEN conjunct2, THEN conjunct2, THEN conjunct2,
      THEN conjunct2, THEN conjunct2, THEN conjunct1, rule_format, OF s]
  have r': "resolve_files_requested demo_env (set (rel_paths wide_linter)) (rev wide_request)
     (files_shown (initial_conv wide_linter demo_loc)) = [''a'', ''b'', ''c'', ''d'', ''e'']"
    by (simp only: r)
  have n: "resolve_files_requested demo_env (set (rel_paths wide_linter)) wide_request
     (files_shown (initial_conv wide_linter demo_loc)) \<noteq> []"
    by (simp only: r) simp
  from f [THEN conjunct2, THEN conjunct2, THEN conjunct2, THEN conjunct2, THEN conjunct2,
      THEN conjunct2, THEN conjunct2, THEN conjunct2, THEN conjunct2, THEN mp, OF n]
  have p: "handle_payload demo_env wide_linter demo_loc
       (DataFilesRequested (FilesRequested wide_request)) (initial_conv wide_linter demo_loc) =
     Continue ((initial_conv wide_linter demo_loc)
        \<lparr>files_shown := {''a'', ''b'', ''c'', ''d'', ''e''},
         messages := messages (initial_conv wide_linter demo_loc) @
           [\<lparr>role = User, content = Subsequent [''a'', ''b'', ''c'', ''d'', ''e'']\<rparr>]\<rparr>)"
    unfolding r by (simp add: initial_conv_def)
  from r r' p show ?thesis by (intro conjI)
qed

section \<open>The files already shown\<close>

lemma follow_up_files_append:
  "follow_up_files (ms @ ms') = follow_up_files ms @ follow_up_files ms'"
  by (induction ms) simp_all

lemma follow_up_files_initial: "follow_up_files (messages (initial_conv l loc)) = []"
  by (simp add: initial_conv_def build_initial_message_def)

lemma turn_files_shown_mono:
  assumes "turn env l svc loc mt st = Continue st' \<or> turn env l svc loc mt st = Stop out st'"
  shows "files_shown st \<subseteq> files_shown st'"
  using assms
proof
  assume "turn env l svc loc mt st = Continue st'"
  from turn_Continue [OF this] show ?thesis by auto
next
  assume "turn env l svc loc mt st = Stop out st'"
  from turn_Stop [OF this] show ?thesis by simp
qed

lemma follow_up_files_are_new:
  fixes env :: "'p::linorder env"
  assumes "turn env l svc loc mt st = Continue st'"
  shows "\<exists>c fs. messages st' = messages st @
                   [\<lparr>role = Assistant, content = Reply c\<rparr>, \<lparr>role = User, content = Subsequent fs\<rparr>] \<and>
                 fs \<noteq> [] \<and> distinct fs \<and> set fs \<inter> files_shown st = {} \<and>
                 set fs \<subseteq> set (rel_paths l) \<and>
                 files_shown st' = files_shown st \<union> set fs"
proof -
  from turn_Continue [OF assms]
  obtain c fr where
    ne: "resolve_files_requested env (set (rel_paths l)) (files_requested fr) (files_shown st) \<noteq> []"
    and m: "messages st' = messages st @
        [\<lparr>role = Assistant, content = Reply c\<rparr>,
         \<lparr>role = User, content = Subsequent
            (resolve_files_requested env (set (rel_paths l)) (files_requested fr) (files_shown st))\<rparr>]"
    and f: "files_shown st' = files_shown st \<union>
        set (resolve_files_requested env (set (rel_paths l)) (files_requested fr) (files_shown st))"
    by auto
  let ?fs = "resolve_files_requested env (set (rel_paths l)) (files_requested fr) (files_shown st)"
  have "distinct ?fs" by (rule resolve_files_requested_props)
  moreover have "set ?fs \<subseteq> (set (rel_paths l) \<inter> path_of env ` set (files_requested fr)) - files_shown st"
    by (rule resolve_files_requested_props)
  then have "set ?fs \<inter> files_shown st = {}" and "set ?fs \<subseteq> set (rel_paths l)" by auto
  ultimately show ?thesis using ne m f by blast
qed

lemma follow_ups_never_repeat:
  fixes env :: "'p::linorder env"
  assumes "state_after_turns env l svc loc mt k st = Some st'"
    and "distinct (follow_up_files (messages st))"
    and "set (follow_up_files (messages st)) = files_shown st"
  shows "distinct (follow_up_files (messages st')) \<and>
         set (follow_up_files (messages st')) = files_shown st'"
  using assms
proof (induction k arbitrary: st)
  case 0
  then show ?case by simp
next
  case (Suc k)
  then obtain st1 where t: "turn env l svc loc mt st = Continue st1"
    and r: "state_after_turns env l svc loc mt k st1 = Some st'"
    by (auto split: step.splits)
  from follow_up_files_are_new [OF t]
  obtain c fs where m: "messages st1 = messages st @
        [\<lparr>role = Assistant, content = Reply c\<rparr>, \<lparr>role = User, content = Subsequent fs\<rparr>]"
    and d: "distinct fs" "set fs \<inter> files_shown st = {}"
    and f: "files_shown st1 = files_shown st \<union> set fs"
    by blast
  have fu: "follow_up_files (messages st1) = follow_up_files (messages st) @ fs"
    by (simp add: m follow_up_files_append)
  have "distinct (follow_up_files (messages st1))"
    using Suc.prems(2,3) d by (auto simp: fu)
  moreover have "set (follow_up_files (messages st1)) = files_shown st1"
    using Suc.prems(3) f by (simp add: fu)
  ultimately show ?case by (rule Suc.IH [OF r])
qed

lemma conversation_follow_ups_never_repeat:
  fixes env :: "'p::linorder env"
  assumes "state_after_turns env l svc loc mt k (initial_conv l loc) = Some st"
  shows "files_shown (initial_conv l loc) \<subseteq> files_shown st \<and>
         distinct (follow_up_files (messages st)) \<and>
         set (follow_up_files (messages st)) = files_shown st"
proof -
  have "distinct (follow_up_files (messages (initial_conv l loc)))"
    by (simp add: follow_up_files_initial)
  moreover have "set (follow_up_files (messages (initial_conv l loc))) =
      files_shown (initial_conv l loc)"
    by (simp add: follow_up_files_initial) (simp add: initial_conv_def)
  ultimately have "distinct (follow_up_files (messages st)) \<and>
         set (follow_up_files (messages st)) = files_shown st"
    by (rule follow_ups_never_repeat [OF assms])
  then show ?thesis by (simp add: initial_conv_def)
qed

text \<open>
  Claim C3. The files shown only grow, and the follow-up messages never inline a file
  twice among themselves (the lemmas above). The claim as a whole fails on the code:
  the initial message of the incremental shape inlines the file of the property, but
  \<open>files_shown\<close> starts empty, so that file is not counted as shown. In the run below
  the service asks for the file of the property itself, \<^verbatim>\<open>a.py\<close>; the request is
  granted, and the conversation ends with \<^verbatim>\<open>a.py\<close> inlined by two user messages.
\<close>

theorem own_file_inlined_twice:
  "map (\<lambda>m. inlined_files (content m))
     (messages (snd (check_proof demo_env demo_linter own_file_service demo_loc None))) =
     [[''a.py''], [], [''a.py''], []] \<and>
   map role (messages (snd (check_proof demo_env demo_linter own_file_service demo_loc None))) =
     [User, Assistant, User, Assistant] \<and>
   files_shown (snd (check_proof demo_env demo_linter own_file_service demo_loc None)) = {''a.py''} \<and>
   (\<exists>cost. fst (check_proof demo_env demo_linter own_file_service demo_loc None) =
      Returned \<lparr>property_location = demo_loc,
                correctness_explanation =
                  OutcomeCorrectness (CorrectnessExplanation Correct ''fine'')\<rparr> cost)"
  by (simp add: demo_linter_def demo_env_def demo_loc_def own_file_service_def files_reply_def
        verdict_reply_def check_proof_def
        initial_conv_def turn_def call_model_def handle_response_def build_initial_message_def
        build_subsequent_message_def resolve_files_requested_def MAX_FILES_REQUESTED_def
        handle_payload_def count_input_tokens_def MAX_CONTEXT_LENGTH_def
        MESSAGE_ENVELOPE_TOKENS_def chosen_response_format_def eval_nat_numeral Let_def)

section \<open>The disclosure policy\<close>

lemma handle_payload_messages:
  "handle_payload env l loc d st = Stop out st' \<Longrightarrow> \<exists>ms. messages st' = messages st @ ms"
  by (cases d) (auto simp: handle_payload_def Let_def split: if_splits)

lemma handle_response_messages:
  "handle_response env l loc resp st = Stop out st' \<Longrightarrow> \<exists>ms. messages st' = messages st @ ms"
  by (auto simp: handle_response_def Let_def split: option.splits dest!: handle_payload_messages)

lemma call_model_messages:
  "call_model env l svc loc mt cap st = Stop out st' \<Longrightarrow> \<exists>ms. messages st' = messages st @ ms"
  by (auto simp: call_model_def Let_def split: reply.splits if_splits
           dest!: handle_response_messages)

lemma turn_messages:
  assumes "turn env l svc loc mt st = Continue st' \<or> turn env l svc loc mt st = Stop out st'"
  shows "\<exists>ms. messages st' = messages st @ ms"
  using assms
proof
  assume "turn env l svc loc mt st = Continue st'"
  from turn_Continue [OF this] show ?thesis by auto
next
  assume "turn env l svc loc mt st = Stop out st'"
  then show ?thesis
    by (auto simp: turn_def Let_def split: option.splits if_splits dest!: call_model_messages)
qed

lemma check_proof_loop_messages:
  "\<exists>ms. messages (snd (check_proof_loop env l svc loc mt n st)) = messages st @ ms"
proof (induction n arbitrary: st)
  case 0
  then show ?case by simp
next
  case (Suc n)
  show ?case
  proof (cases "turn env l svc loc mt st")
    case (Continue st1)
    with turn_messages [of env l svc loc mt st st1] obtain ms
      where "messages st1 = messages st @ ms" by blast
    moreover from Suc.IH [of st1] obtain ms'
      where "messages (snd (check_proof_loop env l svc loc mt n st1)) = messages st1 @ ms'" by blast
    ultimately show ?thesis using Continue by simp
  next
    case (Stop out st1)
    with turn_messages [of env l svc loc mt st st1 out] show ?thesis by simp
  qed
qed

lemma check_proof_first_message:
  "hd (messages (snd (check_proof env l svc loc mt))) =
     \<lparr>role = User, content = build_initial_message l loc\<rparr>"
proof -
  from check_proof_loop_messages [of env l svc loc mt "nat (max_messages l)" "initial_conv l loc"]
  obtain ms where "messages (snd (check_proof env l svc loc mt)) =
      messages (initial_conv l loc) @ ms"
    by (auto simp: check_proof_def)
  then show ?thesis by (simp add: initial_conv_def)
qed

lemma join_Cons: "join sep (x # xs) = (if xs = [] then x else x @ sep @ join sep xs)"
  by (cases xs) simp_all

lemma join_contains:
  assumes "p \<in> set ps"
  shows "\<exists>pre post. join sep (map f ps) = pre @ f p @ post"
  using assms
proof (induction ps)
  case Nil
  then show ?case by simp
next
  case (Cons a ps)
  show ?case
  proof (cases "p = a")
    case True
    have "join sep (map f (a # ps)) = [] @ f p @ (if ps = [] then [] else sep @ join sep (map f ps))"
      using True by (simp add: join_Cons)
    then show ?thesis by blast
  next
    case False
    with Cons.prems have "p \<in> set ps" by simp
    from Cons.IH [OF this] obtain pre post
      where "join sep (map f ps) = pre @ f p @ post" by blast
    moreover from \<open>p \<in> set ps\<close> have "ps \<noteq> []" by auto
    ultimately have "join sep (map f (a # ps)) = (f a @ sep @ pre) @ f p @ post"
      by (simp add: join_Cons)
    then show ?thesis by blast
  qed
qed

lemma full_disclosure_text_contents:
  "\<exists>pre. full_disclosure_text env ps loc =
     pre @ join nl (map (\<lambda>p. format_file env (read_text env p) p) ps) @ nl @ ''            ''"
  unfolding full_disclosure_text_def
  by (simp only: append_assoc [symmetric] append_same_eq) simp

lemma incremental_disclosure_text_contents:
  "\<exists>pre. incremental_disclosure_text env ps deps loc =
     pre @ format_file env (read_text env (rel_path loc)) (rel_path loc) @ nl @ ''            ''"
  unfolding incremental_disclosure_text_def
  by (simp only: append_assoc [symmetric] append_same_eq) simp

lemma full_disclosure_text_inlines:
  assumes "p \<in> set ps"
  shows "\<exists>pre post. full_disclosure_text env ps loc = pre @ format_file env (read_text env p) p @ post"
proof -
  from full_disclosure_text_contents [of env ps loc] obtain pre
    where t: "full_disclosure_text env ps loc =
      pre @ join nl (map (\<lambda>p. format_file env (read_text env p) p) ps) @ nl @ ''            ''"
    by blast
  from join_contains [OF assms, of nl "\<lambda>p. format_file env (read_text env p) p"]
  obtain pre' post' where "join nl (map (\<lambda>p. format_file env (read_text env p) p) ps) =
      pre' @ format_file env (read_text env p) p @ post'"
    by blast
  with t have "full_disclosure_text env ps loc =
      (pre @ pre') @ format_file env (read_text env p) p @ (post' @ nl @ ''            '')"
    by simp
  then show ?thesis by blast
qed

lemma incremental_disclosure_text_inlines:
  "\<exists>pre post. incremental_disclosure_text env ps deps loc =
     pre @ format_file env (read_text env (rel_path loc)) (rel_path loc) @ post"
  using incremental_disclosure_text_contents [of env ps deps loc] by blast

lemma incremental_disclosure_text_other_files:
  assumes "str_of env' = str_of env"
    and "format_file env' (read_text env' (rel_path loc)) (rel_path loc) =
         format_file env (read_text env (rel_path loc)) (rel_path loc)"
  shows "incremental_disclosure_text env' ps deps loc = incremental_disclosure_text env ps deps loc"
  using assms by (simp add: incremental_disclosure_text_def)

lemma render_incremental:
  assumes "exclude_full_files l"
  shows "build_initial_message l loc = InitialIncremental (rel_paths l) (python_deps_text l) loc"
    and "\<exists>pre. render env (build_initial_message l loc) =
           pre @ format_file env (read_text env (rel_path loc)) (rel_path loc) @ nl @ ''            ''"
    and "str_of env' = str_of env \<and>
         format_file env' (read_text env' (rel_path loc)) (rel_path loc) =
           format_file env (read_text env (rel_path loc)) (rel_path loc) \<longrightarrow>
         render env' (build_initial_message l loc) = render env (build_initial_message l loc)"
  using assms incremental_disclosure_text_contents [of env "rel_paths l" "python_deps_text l" loc]
    incremental_disclosure_text_other_files [of env' env loc "rel_paths l" "python_deps_text l"]
  by (simp_all add: build_initial_message_def)

lemma render_full:
  assumes "\<not> exclude_full_files l"
  shows "build_initial_message l loc = InitialFull (rel_paths l) loc"
    and "\<exists>pre. render env (build_initial_message l loc) =
           pre @ join nl (map (\<lambda>p. format_file env (read_text env p) p) (rel_paths l)) @
           nl @ ''            ''"
    and "p \<in> set (rel_paths l) \<longrightarrow>
         (\<exists>pre post. render env (build_initial_message l loc) =
            pre @ format_file env (read_text env p) p @ post)"
  using assms full_disclosure_text_contents [of env "rel_paths l" loc]
    full_disclosure_text_inlines [of p "rel_paths l" env loc]
  by (simp_all add: build_initial_message_def)

text \<open>
  Claim C5. The flag \<open>exclude_full_files\<close> that \<open>init\<close> stores is the comparison of the
  summed lengths of the documents with the threshold, and everything else follows from
  that one flag. At or above the threshold, the initial message of every property has
  the incremental shape: its text ends with the formatted contents of the file of the
  property, and it is the same text whatever the contents of the other files are; the
  response class admits a file request. Below the threshold, the initial message of
  every property has the full shape: its text ends with the formatted contents of all
  files, joined in the order of the listing, so the contents of each file occur in it;
  the response class admits no file request. Every conversation of the run starts with
  that initial message.
\<close>

theorem disclosure_policy:
  fixes env :: "'p::linorder env"
  assumes "init env paths props deps mm threshold mf tot pp = Inr l"
  shows
  "exclude_full_files l =
     (threshold \<le> sum_list (map (\<lambda>p. int (length (read_text env p))) paths)) \<and>
   (threshold \<le> sum_list (map (\<lambda>p. int (length (read_text env p))) paths) \<longrightarrow>
      (\<forall>loc. build_initial_message l loc = InitialIncremental paths (python_deps_text l) loc \<and>
             inlined_files (build_initial_message l loc) = [rel_path loc] \<and>
             (\<exists>pre. render env (build_initial_message l loc) =
                pre @ format_file env (read_text env (rel_path loc)) (rel_path loc) @
                nl @ ''            '') \<and>
             (\<forall>env'. str_of env' = str_of env \<and>
                format_file env' (read_text env' (rel_path loc)) (rel_path loc) =
                  format_file env (read_text env (rel_path loc)) (rel_path loc) \<longrightarrow>
                render env' (build_initial_message l loc) =
                  render env (build_initial_message l loc))) \<and>
      chosen_response_format l = FullFilesExcludedResponse \<and>
      (\<forall>fr. admits (chosen_response_format l) (DataFilesRequested fr))) \<and>
   (sum_list (map (\<lambda>p. int (length (read_text env p))) paths) < threshold \<longrightarrow>
      (\<forall>loc. build_initial_message l loc = InitialFull paths loc \<and>
             inlined_files (build_initial_message l loc) = paths \<and>
             (\<exists>pre. render env (build_initial_message l loc) =
                pre @ join nl (map (\<lambda>p. format_file env (read_text env p) p) paths) @
                nl @ ''            '') \<and>
             (\<forall>p \<in> set paths. \<exists>pre post. render env (build_initial_message l loc) =
                pre @ format_file env (read_text env p) p @ post)) \<and>
      chosen_response_format l = FullFilesIncludedResponse \<and>
      (\<forall>fr. \<not> admits (chosen_response_format l) (DataFilesRequested fr))) \<and>
   (\<forall>svc loc mt. hd (messages (snd (check_proof env l svc loc mt))) =
      \<lparr>role = User, content = build_initial_message l loc\<rparr>)"
proof -
  from assms have flag: "exclude_full_files l =
      (threshold \<le> sum_list (map (\<lambda>p. int (length (read_text env p))) paths))"
    and paths: "rel_paths l = paths"
    by (auto simp: init_def Let_def comp_def split: if_splits)
  have incremental:
    "threshold \<le> sum_list (map (\<lambda>p. int (length (read_text env p))) paths) \<longrightarrow>
      (\<forall>loc. build_initial_message l loc = InitialIncremental paths (python_deps_text l) loc \<and>
             inlined_files (build_initial_message l loc) = [rel_path loc] \<and>
             (\<exists>pre. render env (build_initial_message l loc) =
                pre @ format_file env (read_text env (rel_path loc)) (rel_path loc) @
                nl @ ''            '') \<and>
             (\<forall>env'. str_of env' = str_of env \<and>
                format_file env' (read_text env' (rel_path loc)) (rel_path loc) =
                  format_file env (read_text env (rel_path loc)) (rel_path loc) \<longrightarrow>
                render env' (build_initial_message l loc) =
                  render env (build_initial_message l loc))) \<and>
      chosen_response_format l = FullFilesExcludedResponse \<and>
      (\<forall>fr. admits (chosen_response_format l) (DataFilesRequested fr))"
  proof (intro impI conjI allI)
    fix loc
    assume "threshold \<le> sum_list (map (\<lambda>p. int (length (read_text env p))) paths)"
    with flag have e: "exclude_full_files l" by simp
    from render_incremental(1) [OF e, of loc] paths
    show m: "build_initial_message l loc = InitialIncremental paths (python_deps_text l) loc"
      by simp
    then show "inlined_files (build_initial_message l loc) = [rel_path loc]" by simp
    show "\<exists>pre. render env (build_initial_message l loc) =
                pre @ format_file env (read_text env (rel_path loc)) (rel_path loc) @
                nl @ ''            ''"
      by (rule render_incremental(2) [OF e])
  next
    fix loc :: "'p PropertyLocation" and env' :: "'p env"
    assume "threshold \<le> sum_list (map (\<lambda>p. int (length (read_text env p))) paths)"
    with flag have e: "exclude_full_files l" by simp
    assume "str_of env' = str_of env \<and>
                format_file env' (read_text env' (rel_path loc)) (rel_path loc) =
                  format_file env (read_text env (rel_path loc)) (rel_path loc)"
    with render_incremental(3) [OF e, of env' env loc]
    show "render env' (build_initial_message l loc) = render env (build_initial_message l loc)"
      by (rule mp)
  next
    assume "threshold \<le> sum_list (map (\<lambda>p. int (length (read_text env p))) paths)"
    with flag show "chosen_response_format l = FullFilesExcludedResponse"
      by (simp add: chosen_response_format_def)
  next
    fix fr
    assume "threshold \<le> sum_list (map (\<lambda>p. int (length (read_text env p))) paths)"
    with flag show "admits (chosen_response_format l) (DataFilesRequested fr)"
      by (simp add: chosen_response_format_def)
  qed
  have full:
    "sum_list (map (\<lambda>p. int (length (read_text env p))) paths) < threshold \<longrightarrow>
      (\<forall>loc. build_initial_message l loc = InitialFull paths loc \<and>
             inlined_files (build_initial_message l loc) = paths \<and>
             (\<exists>pre. render env (build_initial_message l loc) =
                pre @ join nl (map (\<lambda>p. format_file env (read_text env p) p) paths) @
                nl @ ''            '') \<and>
             (\<forall>p \<in> set paths. \<exists>pre post. render env (build_initial_message l loc) =
                pre @ format_file env (read_text env p) p @ post)) \<and>
      chosen_response_format l = FullFilesIncludedResponse \<and>
      (\<forall>fr. \<not> admits (chosen_response_format l) (DataFilesRequested fr))"
  proof (intro impI conjI allI ballI)
    fix loc
    assume "sum_list (map (\<lambda>p. int (length (read_text env p))) paths) < threshold"
    with flag have e: "\<not> exclude_full_files l" by simp
    from render_full(1) [OF e, of loc] paths
    show m: "build_initial_message l loc = InitialFull paths loc" by simp
    then show "inlined_files (build_initial_message l loc) = paths" by simp
    from render_full(2) [OF e, of env loc] paths
    show "\<exists>pre. render env (build_initial_message l loc) =
                pre @ join nl (map (\<lambda>p. format_file env (read_text env p) p) paths) @
                nl @ ''            ''"
      by simp
  next
    fix loc p
    assume "sum_list (map (\<lambda>p. int (length (read_text env p))) paths) < threshold"
      and p: "p \<in> set paths"
    with flag have e: "\<not> exclude_full_files l" by simp
    from render_full(3) [OF e, of p env loc] p paths
    show "\<exists>pre post. render env (build_initial_message l loc) =
                pre @ format_file env (read_text env p) p @ post"
      by simp
  next
    assume "sum_list (map (\<lambda>p. int (length (read_text env p))) paths) < threshold"
    with flag show "chosen_response_format l = FullFilesIncludedResponse"
      by (simp add: chosen_response_format_def)
  next
    fix fr
    assume "sum_list (map (\<lambda>p. int (length (read_text env p))) paths) < threshold"
    with flag show "\<not> admits (chosen_response_format l) (DataFilesRequested fr)"
      by (simp add: chosen_response_format_def)
  qed
  have start: "\<forall>svc loc mt. hd (messages (snd (check_proof env l svc loc mt))) =
      \<lparr>role = User, content = build_initial_message l loc\<rparr>"
    by (intro allI) (rule check_proof_first_message)
  from flag incremental full start show ?thesis by (intro conjI)
qed

text \<open>
  Two files of twelve characters each: with the threshold at 24 the text of the initial
  message holds the contents of \<^verbatim>\<open>a.py\<close>, the file of the property; with the threshold
  at 25 it holds the contents of \<^verbatim>\<open>a.py\<close> and of \<^verbatim>\<open>b.py\<close>.
\<close>

theorem disclosure_policy_witness:
  "(\<exists>l. init demo_env [''a.py'', ''b.py''] (\<lambda>p. [3]) None 50 24 1000 None None = Inr l \<and>
        build_initial_message l demo_loc = InitialIncremental [''a.py'', ''b.py''] [] demo_loc \<and>
        (\<exists>pre. render demo_env (build_initial_message l demo_loc) =
           pre @ ''a.py: text of a.py'' @ nl @ ''            '') \<and>
        chosen_response_format l = FullFilesExcludedResponse) \<and>
   (\<exists>l. init demo_env [''a.py'', ''b.py''] (\<lambda>p. [3]) None 50 25 1000 None None = Inr l \<and>
        build_initial_message l demo_loc = InitialFull [''a.py'', ''b.py''] demo_loc \<and>
        (\<exists>pre. render demo_env (build_initial_message l demo_loc) =
           pre @ (''a.py: text of a.py'' @ nl @ ''b.py: text of b.py'') @ nl @ ''            '') \<and>
        (\<exists>pre post. render demo_env (build_initial_message l demo_loc) =
           pre @ ''b.py: text of b.py'' @ post) \<and>
        chosen_response_format l = FullFilesIncludedResponse)"
proof -
  have total: "sum_list (map (\<lambda>p. int (length (read_text demo_env p))) [''a.py'', ''b.py'']) = 24"
    by (simp add: demo_env_def)
  have fa: "format_file demo_env (read_text demo_env ''a.py'') ''a.py'' = ''a.py: text of a.py''"
    by (simp add: demo_env_def)
  have fb: "format_file demo_env (read_text demo_env ''b.py'') ''b.py'' = ''b.py: text of b.py''"
    by (simp add: demo_env_def)
  have target: "rel_path demo_loc = ''a.py''"
    by (simp add: demo_loc_def)
  obtain l1 where l1: "init demo_env [''a.py'', ''b.py''] (\<lambda>p. [3]) None 50 24 1000 None None = Inr l1"
    by (simp add: init_def)
  obtain l2 where l2: "init demo_env [''a.py'', ''b.py''] (\<lambda>p. [3]) None 50 25 1000 None None = Inr l2"
    by (simp add: init_def)
  have d1: "python_deps_text l1 = []"
    using l1 by (auto simp: init_def Let_def)
  have at: "(24 :: int) \<le> sum_list (map (\<lambda>p. int (length (read_text demo_env p))) [''a.py'', ''b.py''])"
    by (simp only: total)
  have below: "sum_list (map (\<lambda>p. int (length (read_text demo_env p))) [''a.py'', ''b.py'']) < (25 :: int)"
    by (simp only: total)
  note inc = disclosure_policy [OF l1, THEN conjunct2, THEN conjunct1, THEN mp, OF at]
  from inc [THEN conjunct1, rule_format, of demo_loc]
  have i1: "build_initial_message l1 demo_loc = InitialIncremental [''a.py'', ''b.py''] [] demo_loc"
    and i2: "\<exists>pre. render demo_env (build_initial_message l1 demo_loc) =
           pre @ ''a.py: text of a.py'' @ nl @ ''            ''"
    unfolding target fa d1 by blast+
  from inc have i3: "chosen_response_format l1 = FullFilesExcludedResponse" by blast
  note ful = disclosure_policy [OF l2, THEN conjunct2, THEN conjunct2, THEN conjunct1, THEN mp, OF below]
  from ful [THEN conjunct1, rule_format, of demo_loc]
  have f1: "build_initial_message l2 demo_loc = InitialFull [''a.py'', ''b.py''] demo_loc"
    and f2: "\<exists>pre. render demo_env (build_initial_message l2 demo_loc) =
           pre @ join nl (map (\<lambda>p. format_file demo_env (read_text demo_env p) p)
                            [''a.py'', ''b.py'']) @ nl @ ''            ''"
    and f3: "\<forall>p \<in> set [''a.py'', ''b.py'']. \<exists>pre post.
           render demo_env (build_initial_message l2 demo_loc) =
           pre @ format_file demo_env (read_text demo_env p) p @ post"
    by blast+
  from f2 have f2': "\<exists>pre. render demo_env (build_initial_message l2 demo_loc) =
           pre @ (''a.py: text of a.py'' @ nl @ ''b.py: text of b.py'') @ nl @ ''            ''"
    by (simp only: list.map join.simps fa fb)
  from f3 have "\<exists>pre post. render demo_env (build_initial_message l2 demo_loc) =
           pre @ format_file demo_env (read_text demo_env ''b.py'') ''b.py'' @ post"
    by simp
  then have f3': "\<exists>pre post. render demo_env (build_initial_message l2 demo_loc) =
           pre @ ''b.py: text of b.py'' @ post"
    by (simp only: fb)
  from ful have f4: "chosen_response_format l2 = FullFilesIncludedResponse" by blast
  from l1 i1 i2 i3 l2 f1 f2' f3' f4 show ?thesis by blast
qed

end
